theory Spec2Isabelle
  imports Complex_Main
begin

section \<open>Values, errors and the array operations of the scripts\<close>

text \<open>
  The two scripts compute with Python \<open>complex\<close> and \<open>float\<close> values held in
  one- and two-dimensional numpy arrays. A float is modelled by a \<^typ>\<open>real\<close> and a
  complex by a \<^typ>\<open>complex\<close> (exact arithmetic: rounding is not modelled), a
  one-dimensional array by a list and a two-dimensional array by the list of its rows.
  Every exception of the source is a value of \<open>error\<close>, returned as \<open>Inl\<close>.
\<close>

datatype error = ValueError | KeyError | LinAlgError string | CalledProcessError

type_synonym vector = "complex list"

type_synonym matrix = "complex list list"

text \<open>
  \<open>numpy.dot(x, y)\<close> on two one-dimensional arrays: the sum of the products of the
  entries, nothing conjugated; arrays of different sizes raise \<open>ValueError\<close>.
\<close>

definition np_dot :: "vector \<Rightarrow> vector \<Rightarrow> error + complex" where
  "np_dot x y =
     (if length x = length y then Inr (sum_list (map2 (\<lambda>a b. a * b) x y))
      else Inl ValueError)"

text \<open>\<open>numpy.vdot(x, y)\<close>: as \<open>dot\<close>, with the first argument conjugated.\<close>

definition np_vdot :: "vector \<Rightarrow> vector \<Rightarrow> error + complex" where
  "np_vdot x y =
     (if length x = length y then Inr (sum_list (map2 (\<lambda>a b. cnj a * b) x y))
      else Inl ValueError)"

text \<open>\<open>numpy.linalg.norm(x)\<close> of a one-dimensional array: the Euclidean norm.\<close>

definition np_linalg_norm :: "vector \<Rightarrow> real" where
  "np_linalg_norm x = sqrt (sum_list (map (\<lambda>z. (cmod z)\<^sup>2) x))"

text \<open>The attributes \<open>x.real\<close> and \<open>x.imag\<close>, and \<open>numpy.abs\<close>, \<open>numpy.sum\<close> on floats.\<close>

definition np_real :: "vector \<Rightarrow> real list" where
  "np_real x = map Re x"

definition np_imag :: "vector \<Rightarrow> real list" where
  "np_imag x = map Im x"

definition np_abs :: "real list \<Rightarrow> real list" where
  "np_abs v = map abs v"

definition np_sum :: "real list \<Rightarrow> real" where
  "np_sum v = sum_list v"

text \<open>
  The expression both scripts compute for \<open>dzasum\<close>:
  \<open>np.sum(np.abs(x.real)) + np.sum(np.abs(x.imag))\<close>.
\<close>

definition dzasum :: "vector \<Rightarrow> real" where
  "dzasum x = np_sum (np_abs (np_real x)) + np_sum (np_abs (np_imag x))"

text \<open>
  \<open>numpy.allclose(a, b, rtol, atol)\<close> on two finite scalars, by the formula of its
  documentation: \<open>absolute(a - b) <= atol + rtol * absolute(b)\<close>. The absolute value
  of a complex number is its modulus.
\<close>

definition np_allclose :: "'a::real_normed_vector \<Rightarrow> 'a \<Rightarrow> real \<Rightarrow> real \<Rightarrow> bool" where
  "np_allclose a b rtol atol = (norm (a - b) \<le> atol + rtol * norm b)"

text \<open>Scalar times array, array plus array (numpy broadcasts an array of one entry).\<close>

definition np_scale :: "complex \<Rightarrow> vector \<Rightarrow> vector" where
  "np_scale alpha x = map (\<lambda>z. alpha * z) x"

definition np_scale_mat :: "complex \<Rightarrow> matrix \<Rightarrow> matrix" where
  "np_scale_mat alpha A = map (np_scale alpha) A"

definition np_add :: "vector \<Rightarrow> vector \<Rightarrow> error + vector" where
  "np_add x y =
     (if length x = length y then Inr (map2 (\<lambda>a b. a + b) x y)
      else if length x = 1 then Inr (map (\<lambda>b. hd x + b) y)
      else if length y = 1 then Inr (map (\<lambda>a. a + hd y) x)
      else Inl ValueError)"

text \<open>
  \<open>A @ x\<close> for a two-dimensional \<open>A\<close> and a one-dimensional \<open>x\<close>: every row of
  \<open>A\<close> must be as long as \<open>x\<close>, or \<open>ValueError\<close> is raised.
\<close>

definition np_matvec :: "matrix \<Rightarrow> vector \<Rightarrow> error + vector" where
  "np_matvec A x =
     (if list_all (\<lambda>row. length row = length x) A
      then Inr (map (\<lambda>row. sum_list (map2 (\<lambda>a b. a * b) row x)) A)
      else Inl ValueError)"

section \<open>The validation script\<close>

definition DEFAULT_TOL :: real where
  "DEFAULT_TOL = 1 / 10 ^ 10"

text \<open>
  Every comparison of the script is the call
  \<open>np.allclose(result, expected, rtol=0, atol=DEFAULT_TOL)\<close>.
\<close>

definition passed :: "'a::real_normed_vector \<Rightarrow> 'a \<Rightarrow> bool" where
  "passed result expected = np_allclose result expected 0 DEFAULT_TOL"

text \<open>
  The loop shared by the four Level 1 validators: \<open>all_passed\<close> starts as \<open>True\<close>
  and is set to \<open>False\<close> by every case that does not pass; an exception raised while a
  case is computed ends the loop. Printing is not modelled.
\<close>

fun run_cases :: "('c \<Rightarrow> error + bool) \<Rightarrow> 'c list \<Rightarrow> bool \<Rightarrow> error + bool" where
  "run_cases check [] all_passed = Inr all_passed"
| "run_cases check (c # cs) all_passed =
     (case check c of
        Inl e \<Rightarrow> Inl e
      | Inr ok \<Rightarrow> run_cases check cs (if \<not> ok then False else all_passed))"

definition zdotu_test_cases :: "(vector \<times> vector \<times> complex) list" where
  "zdotu_test_cases =
     [([Complex 1 0, Complex 2 1], [Complex 3 4, Complex 1 (-2)], Complex 7 1),
      ([Complex 1 0, Complex 2 0, Complex 3 0], [Complex 4 0, Complex 5 0, Complex 6 0],
       Complex 32 0),
      ([Complex 0 1, Complex 0 2], [Complex 0 3, Complex 0 4], Complex (-11) 0)]"

definition validate_zdotu :: "error + bool" where
  "validate_zdotu =
     run_cases (\<lambda>(x, y, expected).
        case np_dot x y of Inl e \<Rightarrow> Inl e | Inr result \<Rightarrow> Inr (passed result expected))
       zdotu_test_cases True"

definition zdotc_test_cases :: "(vector \<times> vector \<times> complex) list" where
  "zdotc_test_cases =
     [([Complex 1 0, Complex 0 1], [Complex 1 0, Complex 0 (-1)], Complex 0 0),
      ([Complex 3 4, Complex 1 (-2)], [Complex 2 (-1), Complex 5 3], Complex 1 2),
      ([Complex 3 4, Complex 0 5], [Complex 3 4, Complex 0 5], Complex 50 0)]"

definition validate_zdotc :: "error + bool" where
  "validate_zdotc =
     run_cases (\<lambda>(x, y, expected).
        case np_vdot x y of Inl e \<Rightarrow> Inl e | Inr result \<Rightarrow> Inr (passed result expected))
       zdotc_test_cases True"

definition norm_test_cases :: "(vector \<times> real) list" where
  "norm_test_cases =
     [([Complex 3 4, Complex 0 0], 5),
      ([Complex 1 0, Complex 2 0, Complex 3 0], sqrt 14),
      ([Complex 0 1, Complex 0 2], sqrt 5),
      (map (\<lambda>z. z / 5) [Complex 3 4], 1)]"

definition validate_norms :: "error + bool" where
  "validate_norms =
     run_cases (\<lambda>(x, expected). Inr (passed (np_linalg_norm x) expected))
       norm_test_cases True"

definition asum_test_cases :: "(vector \<times> real) list" where
  "asum_test_cases =
     [([Complex 3 4, Complex (-1) 0], 8),
      ([Complex 1 1, Complex (-2) 3, Complex 0 (-4)], 11),
      ([Complex 0 0, Complex 0 0], 0)]"

definition validate_asum :: "error + bool" where
  "validate_asum =
     run_cases (\<lambda>(x, expected). Inr (passed (dzasum x) expected))
       asum_test_cases True"

text \<open>
  \<open>validate_level2_operations\<close> computes \<open>alpha * A @ x + beta * y\<close> and \<open>H @ x\<close>,
  prints them, compares nothing and ends with \<open>return True\<close>.
\<close>

definition validate_level2_operations :: "error + bool" where
  "validate_level2_operations =
     (let A = [[Complex 1 1, Complex 2 0], [Complex 3 0, Complex 4 1]];
          x = [Complex 1 1, Complex 2 0];
          y = [Complex 0 0, Complex 0 0];
          alpha = Complex 1 0;
          beta = Complex 0 0
      in case np_matvec (np_scale_mat alpha A) x of
           Inl e \<Rightarrow> Inl e
         | Inr Ax \<Rightarrow>
             (case np_add Ax (np_scale beta y) of
                Inl e \<Rightarrow> Inl e
              | Inr result \<Rightarrow>
                  (let H = [[Complex 2 0, Complex 1 (-1)], [Complex 1 1, Complex 3 0]];
                       x = [Complex 1 1, Complex 2 0]
                   in case np_matvec H x of
                        Inl e \<Rightarrow> Inl e
                      | Inr result \<Rightarrow> Inr True)))"

text \<open>
  \<open>generate_test_summary\<close> builds the dictionary \<open>results\<close> by calling the five
  validators in order and returns \<open>all(results.values())\<close>. The validators are
  arguments of \<open>generate_test_summary_from\<close>, so that a run in which a scenario
  fails can be stated; \<open>generate_test_summary\<close> is the function of the script.
\<close>

definition generate_test_summary_from ::
  "error + bool \<Rightarrow> error + bool \<Rightarrow> error + bool \<Rightarrow> error + bool \<Rightarrow> error + bool \<Rightarrow> error + bool"
where
  "generate_test_summary_from zdotu zdotc norms asum level2 =
     (case zdotu of Inl e \<Rightarrow> Inl e | Inr r1 \<Rightarrow>
     (case zdotc of Inl e \<Rightarrow> Inl e | Inr r2 \<Rightarrow>
     (case norms of Inl e \<Rightarrow> Inl e | Inr r3 \<Rightarrow>
     (case asum of Inl e \<Rightarrow> Inl e | Inr r4 \<Rightarrow>
     (case level2 of Inl e \<Rightarrow> Inl e | Inr r5 \<Rightarrow>
        (let results =
               [(''Level 1 - zdotu'', r1), (''Level 1 - zdotc'', r2),
                (''Level 1 - dznrm2'', r3), (''Level 1 - dzasum'', r4),
                (''Level 2 - Matrix operations'', r5)]
         in Inr (list_all (\<lambda>v. v) (map snd results))))))))"

definition generate_test_summary :: "error + bool" where
  "generate_test_summary =
     generate_test_summary_from validate_zdotu validate_zdotc validate_norms validate_asum
       validate_level2_operations"

text \<open>
  \<open>subprocess.run([...], check=True)\<close> raises \<open>CalledProcessError\<close> when the child
  process (the fixture generator) ends with a return code other than 0. The return code
  is an input of the model.
\<close>

definition subprocess_run_check :: "int \<Rightarrow> error + unit" where
  "subprocess_run_check returncode =
     (if returncode \<noteq> 0 then Inl CalledProcessError else Inr ())"

text \<open>
  How \<open>main\<close> ends: by \<open>sys.exit(n)\<close>, or by an exception nothing catches. The
  interpreter ends with status 1 after an uncaught exception.
\<close>

datatype outcome = SysExit int | Uncaught error

fun exit_code :: "outcome \<Rightarrow> int" where
  "exit_code (SysExit n) = n"
| "exit_code (Uncaught e) = 1"

definition main_from :: "error + bool \<Rightarrow> int \<Rightarrow> outcome" where
  "main_from summary returncode =
     (case summary of
        Inl e \<Rightarrow> Uncaught e
      | Inr all_passed \<Rightarrow>
          (case subprocess_run_check returncode of
             Inl e \<Rightarrow> Uncaught e
           | Inr u \<Rightarrow> SysExit (if all_passed then 0 else 1)))"

definition main :: "int \<Rightarrow> outcome" where
  "main returncode = main_from generate_test_summary returncode"

section \<open>The fixture generator, Level 2\<close>

text \<open>
  What \<open>json.dump\<close> is given: integers, floats, strings, lists and dictionaries. A
  dictionary is the list of its items in insertion order.
\<close>

datatype json =
    JInt int
  | JFloat real
  | JStr string
  | JArr "json list"
  | JObj "(string \<times> json) list"

type_synonym dict = "(string \<times> json) list"

text \<open>\<open>d[k] = v\<close>: the value of an existing key is replaced, a new key goes last.\<close>

fun dict_set :: "dict \<Rightarrow> string \<Rightarrow> json \<Rightarrow> dict" where
  "dict_set [] k v = [(k, v)]"
| "dict_set ((k', v') # d) k v =
     (if k' = k then (k, v) # d else (k', v') # dict_set d k v)"

text \<open>
  \<open>test_case["results"][k] = v\<close>: the dictionary under \<open>"results"\<close> is updated in
  place; \<open>KeyError\<close> without that key.
\<close>

definition set_result :: "dict \<Rightarrow> string \<Rightarrow> json \<Rightarrow> error + dict" where
  "set_result test_case k v =
     (case map_of test_case ''results'' of
        Some (JObj results) \<Rightarrow> Inr (dict_set test_case ''results'' (JObj (dict_set results k v)))
      | _ \<Rightarrow> Inl KeyError)"

definition complex_to_dict :: "complex \<Rightarrow> json" where
  "complex_to_dict z = JObj [(''real'', JFloat (Re z)), (''imag'', JFloat (Im z))]"

definition array_to_list :: "vector \<Rightarrow> json" where
  "array_to_list arr = JArr (map complex_to_dict arr)"

definition matrix_to_list :: "matrix \<Rightarrow> json" where
  "matrix_to_list mat = JArr (map (\<lambda>row. JArr (map complex_to_dict row)) mat)"

text \<open>
  The pseudo-random source. \<open>np.random.seed(42)\<close> fixes the sequence of the standard
  normal draws that follow; the sequence is an input of the model, and a generator state
  is what is left of it. \<open>np.random.randn(n)\<close> takes the next \<open>n\<close> draws,
  \<open>np.random.randn(m, n)\<close> the next \<open>m * n\<close>, row by row. In
  \<open>randn(..) + 1j * randn(..)\<close> the real parts are drawn first.
\<close>

type_synonym rng = "nat \<Rightarrow> real"

definition randn :: "nat \<Rightarrow> rng \<Rightarrow> real list \<times> rng" where
  "randn n g = (map g [0..<n], \<lambda>k. g (k + n))"

definition randn2 :: "nat \<Rightarrow> nat \<Rightarrow> rng \<Rightarrow> real list list \<times> rng" where
  "randn2 m n g = (map (\<lambda>i. map (\<lambda>j. g (i * n + j)) [0..<n]) [0..<m], \<lambda>k. g (k + m * n))"

definition complex_randn :: "nat \<Rightarrow> rng \<Rightarrow> vector \<times> rng" where
  "complex_randn n g =
     (let (re, g1) = randn n g; (im, g2) = randn n g1
      in (map2 Complex re im, g2))"

definition complex_randn2 :: "nat \<Rightarrow> nat \<Rightarrow> rng \<Rightarrow> matrix \<times> rng" where
  "complex_randn2 m n g =
     (let (re, g1) = randn2 m n g; (im, g2) = randn2 m n g1
      in (map2 (map2 Complex) re im, g2))"

text \<open>
  Matrix operations of the generator: the sum of two matrices of one shape
  (\<open>ValueError\<close> otherwise; the generator never adds arrays that numpy would
  broadcast), \<open>A.conj().T\<close>, division by a real, \<open>numpy.outer\<close>.
\<close>

definition np_add_mat :: "matrix \<Rightarrow> matrix \<Rightarrow> error + matrix" where
  "np_add_mat A B =
     (if map length A = map length B then Inr (map2 (map2 (\<lambda>a b. a + b)) A B)
      else Inl ValueError)"

definition conj_T :: "matrix \<Rightarrow> matrix" where
  "conj_T A = transpose (map (map cnj) A)"

definition np_div_mat :: "matrix \<Rightarrow> real \<Rightarrow> matrix" where
  "np_div_mat A c = map (map (\<lambda>a. a / complex_of_real c)) A"

definition np_outer :: "vector \<Rightarrow> vector \<Rightarrow> matrix" where
  "np_outer x y = map (\<lambda>a. map (\<lambda>b. a * b) y) x"

text \<open>
  Modelled from the spec: \<open>numpy.triu\<close>, which the generator calls and whose code is
  not part of the repository. The upper-triangular extraction of \<open>A\<close>: the entries
  strictly below the main diagonal become the zero complex value, the others are kept.
\<close>

definition np_triu :: "matrix \<Rightarrow> matrix" where
  "np_triu A =
     map (\<lambda>(i, row). map (\<lambda>(j, a). if j < i then 0 else a) (enumerate 0 row)) (enumerate 0 A)"

text \<open>
  Modelled from the spec: \<open>triangular_solve(U, b)\<close>, which the generator computes by
  \<open>numpy.linalg.solve(U, b)\<close> on the upper-triangular \<open>U\<close>; numpy's code is not
  part of the repository. The solver goes from the last row to the first, reads the
  diagonal and the entries right of it only, and raises \<open>LinAlgError('Singular matrix')\<close>
  (the spec's \<open>SingularMatrixError\<close>) at a zero pivot instead of dividing by it. A
  matrix that is not square raises \<open>LinAlgError\<close>, a right-hand side of another
  size \<open>ValueError\<close>.
\<close>

fun back_substitution :: "nat \<Rightarrow> matrix \<Rightarrow> vector \<Rightarrow> error + vector" where
  "back_substitution i [] bs = Inr []"
| "back_substitution i (row # rows) [] = Inl ValueError"
| "back_substitution i (row # rows) (b # bs) =
     (case back_substitution (Suc i) rows bs of
        Inl e \<Rightarrow> Inl e
      | Inr xs \<Rightarrow>
          if row ! i = 0 then Inl (LinAlgError ''Singular matrix'')
          else Inr ((b - sum_list (map2 (\<lambda>a b. a * b) (drop (Suc i) row) xs)) / row ! i # xs))"

definition np_linalg_solve :: "matrix \<Rightarrow> vector \<Rightarrow> error + vector" where
  "np_linalg_solve U b =
     (if \<not> list_all (\<lambda>row. length row = length U) U
      then Inl (LinAlgError ''Last 2 dimensions of the array must be square'')
      else if length b \<noteq> length U then Inl ValueError
      else back_substitution 0 U b)"

text \<open>\<open>alpha * A @ x + beta * y\<close>, as the generator writes it.\<close>

definition affine_matvec :: "complex \<Rightarrow> matrix \<Rightarrow> vector \<Rightarrow> complex \<Rightarrow> vector \<Rightarrow> error + vector" where
  "affine_matvec alpha A x beta y =
     (case np_matvec (np_scale_mat alpha A) x of
        Inl e \<Rightarrow> Inl e
      | Inr v \<Rightarrow> np_add v (np_scale beta y))"

text \<open>
  The body of \<open>if m == n\<close> in \<open>generate_level2_tests\<close>: the Hermitian matrix
  \<open>H\<close>, the upper-triangular \<open>U = np.triu(A)\<close>, a fresh right-hand side \<open>b\<close>
  and the solution of \<open>U x = b\<close>, each stored in the test case.
\<close>

definition level2_square_part ::
  "nat \<Rightarrow> matrix \<Rightarrow> vector \<Rightarrow> vector \<Rightarrow> complex \<Rightarrow> complex \<Rightarrow> dict \<Rightarrow> rng \<Rightarrow> error + (dict \<times> rng)"
where
  "level2_square_part n A x y alpha beta test_case g =
     (case np_add_mat A (conj_T A) of Inl e \<Rightarrow> Inl e | Inr S \<Rightarrow>
     (let H = np_div_mat S 2 in
     (case affine_matvec alpha H x beta y of Inl e \<Rightarrow> Inl e | Inr zhemv_result \<Rightarrow>
     (let tc1 = dict_set test_case ''H'' (matrix_to_list H) in
     (case set_result tc1 ''zhemv'' (array_to_list zhemv_result) of Inl e \<Rightarrow> Inl e | Inr tc2 \<Rightarrow>
     (let U = np_triu A in
     (case np_matvec U x of Inl e \<Rightarrow> Inl e | Inr ztrmv_result \<Rightarrow>
     (let tc3 = dict_set tc2 ''U'' (matrix_to_list U) in
     (case set_result tc3 ''ztrmv'' (array_to_list ztrmv_result) of Inl e \<Rightarrow> Inl e | Inr tc4 \<Rightarrow>
     (let (b, g') = complex_randn n g in
     (case np_linalg_solve U b of Inl e \<Rightarrow> Inl e | Inr ztrsv_result \<Rightarrow>
     (let tc5 = dict_set tc4 ''b'' (array_to_list b) in
     (case set_result tc5 ''ztrsv'' (array_to_list ztrsv_result) of Inl e \<Rightarrow> Inl e | Inr tc6 \<Rightarrow>
        Inr (tc6, g'))))))))))))))"

text \<open>One pass of the loop \<open>for m, n in sizes\<close>.\<close>

definition level2_test_case :: "nat \<Rightarrow> nat \<Rightarrow> rng \<Rightarrow> error + (dict \<times> rng)" where
  "level2_test_case m n g =
     (let (A, g1) = complex_randn2 m n g;
          (x, g2) = complex_randn n g1;
          (y, g3) = complex_randn m g2;
          alpha = Complex (3 / 2) (1 / 2);
          beta = Complex (1 / 2) (- 1 / 2)
      in case affine_matvec alpha A x beta y of
           Inl e \<Rightarrow> Inl e
         | Inr gemv_result \<Rightarrow>
             (let test_case =
                    [(''m'', JInt (int m)), (''n'', JInt (int n)),
                     (''A'', matrix_to_list A), (''x'', array_to_list x),
                     (''y'', array_to_list y), (''alpha'', complex_to_dict alpha),
                     (''beta'', complex_to_dict beta),
                     (''results'', JObj [(''zgemv'', array_to_list gemv_result)])]
              in if m = n then level2_square_part n A x y alpha beta test_case g3
                 else Inr (test_case, g3)))"

fun level2_loop :: "(nat \<times> nat) list \<Rightarrow> dict list \<Rightarrow> rng \<Rightarrow> error + (dict list \<times> rng)" where
  "level2_loop [] level2_tests g = Inr (level2_tests, g)"
| "level2_loop ((m, n) # sizes) level2_tests g =
     (case level2_test_case m n g of
        Inl e \<Rightarrow> Inl e
      | Inr (test_case, g') \<Rightarrow> level2_loop sizes (level2_tests @ [test_case]) g')"

definition generate_rank1_update_tests :: "rng \<Rightarrow> error + (dict list \<times> rng)" where
  "generate_rank1_update_tests g =
     (let m = 3; n = 3;
          (A, g1) = complex_randn2 m n g;
          (x, g2) = complex_randn m g1;
          (y, g3) = complex_randn n g2;
          alpha = Complex 2 1
      in
     (case np_add_mat A (np_scale_mat alpha (np_outer x (map cnj y))) of Inl e \<Rightarrow> Inl e | Inr gerc_result \<Rightarrow>
     (case np_add_mat A (np_scale_mat alpha (np_outer x y)) of Inl e \<Rightarrow> Inl e | Inr geru_result \<Rightarrow>
     (case np_add_mat A (conj_T A) of Inl e \<Rightarrow> Inl e | Inr S \<Rightarrow>
     (let H = np_div_mat S 2 in
     (case np_add_mat H (np_scale_mat (complex_of_real (Re alpha)) (np_outer x (map cnj x))) of
        Inl e \<Rightarrow> Inl e
      | Inr her_result \<Rightarrow>
          Inr ([[(''name'', JStr ''rank1_updates''), (''m'', JInt (int m)), (''n'', JInt (int n)),
                 (''A'', matrix_to_list A), (''H'', matrix_to_list H),
                 (''x'', array_to_list x), (''y'', array_to_list y),
                 (''alpha'', complex_to_dict alpha), (''alpha_real'', JFloat (Re alpha)),
                 (''results'', JObj [(''zgerc'', matrix_to_list gerc_result),
                    (''zgeru'', matrix_to_list geru_result),
                    (''zher'', matrix_to_list her_result)])]], g3)))))))"

text \<open>
  \<open>generate_level2_tests\<close>: the loop over the four shapes, then the rank-1 update
  tests; the result is the list stored under \<open>test_data["level2"]\<close>, with the state
  of the pseudo-random source after it.
\<close>

definition generate_level2_tests :: "rng \<Rightarrow> error + (dict list \<times> rng)" where
  "generate_level2_tests g =
     (case level2_loop [(2, 2), (3, 3), (4, 3), (3, 4)] [] g of
        Inl e \<Rightarrow> Inl e
      | Inr (level2_tests, g1) \<Rightarrow>
          (case generate_rank1_update_tests g1 of
             Inl e \<Rightarrow> Inl e
           | Inr (rank1_tests, g2) \<Rightarrow> Inr (level2_tests @ rank1_tests, g2)))"

section \<open>The decoder of complex numbers\<close>

text \<open>
  A Python \<open>str\<close> is a sequence of Unicode code points: text is a list of natural
  numbers (type \<open>pystr\<close>), and \<open>code_points\<close> gives the text of an ASCII literal. A Python float is a
  real number, an infinity or NaN (\<open>float\<close> returns the last three for \<open>inf\<close>,
  \<open>-inf\<close> and \<open>nan\<close>); a complex is a pair of floats.
\<close>

type_synonym pystr = "nat list"

definition code_points :: "string \<Rightarrow> pystr" where
  "code_points s = map of_char s"

datatype pyfloat = Finite real | PosInf | NegInf | NaN

datatype pycomplex = PyComplex pyfloat pyfloat

text \<open>The characters \<open>.\<close>, \<open>+\<close>, \<open>-\<close>, \<open>_\<close>, \<open>e\<close> and \<open>E\<close>.\<close>

abbreviation chr_dot :: nat where "chr_dot \<equiv> 46"

abbreviation chr_plus :: nat where "chr_plus \<equiv> 43"

abbreviation chr_minus :: nat where "chr_minus \<equiv> 45"

abbreviation chr_underscore :: nat where "chr_underscore \<equiv> 95"

abbreviation chr_e :: nat where "chr_e \<equiv> 101"

abbreviation chr_E :: nat where "chr_E \<equiv> 69"

text \<open>
  Decimal digits. \<open>\d\<close> of the pattern and \<open>float\<close> take every decimal digit of
  Unicode. Below code point 128 these are \<open>0\<close> to \<open>9\<close> (48 to 57). The digits above
  127 are a table of the interpreter's Unicode database, which is not part of the
  repository and grows with the Unicode version: the table is the argument \<open>dec\<close> of
  the model, \<open>dec c\<close> being the value of the digit \<open>c\<close>, or \<open>None\<close> when \<open>c\<close> is no
  decimal digit.
\<close>

definition digit_of :: "(nat \<Rightarrow> nat option) \<Rightarrow> nat \<Rightarrow> nat option" where
  "digit_of dec c =
     (if 48 \<le> c \<and> c \<le> 57 then Some (c - 48) else if c < 128 then None else dec c)"

definition is_digit :: "(nat \<Rightarrow> nat option) \<Rightarrow> nat \<Rightarrow> bool" where
  "is_digit dec c = (digit_of dec c \<noteq> None)"

definition digit_value :: "(nat \<Rightarrow> nat option) \<Rightarrow> nat \<Rightarrow> nat" where
  "digit_value dec c = (case digit_of dec c of Some v \<Rightarrow> v | None \<Rightarrow> 0)"

definition digits_value :: "(nat \<Rightarrow> nat option) \<Rightarrow> pystr \<Rightarrow> nat" where
  "digits_value dec ds = foldl (\<lambda>a c. 10 * a + digit_value dec c) 0 ds"

text \<open>
  The table of Unicode 14.0, the version of CPython 3.11: each entry of \<open>nd_zeros\<close> is
  the digit zero of a script, followed by its digits one to nine.
\<close>

definition nd_zeros :: "nat list" where
  "nd_zeros =
     [1632, 1776, 1984, 2406, 2534, 2662, 2790, 2918, 3046, 3174, 3302, 3430, 3558, 3664,
      3792, 3872, 4160, 4240, 6112, 6160, 6470, 6608, 6784, 6800, 6992, 7088, 7232, 7248,
      42528, 43216, 43264, 43472, 43504, 43600, 44016, 65296, 66720, 68912, 69734, 69872,
      69942, 70096, 70384, 70736, 70864, 71248, 71360, 71472, 71904, 72016, 72784, 73040,
      73120, 92768, 92864, 93008, 120782, 120792, 120802, 120812, 120822, 123200, 123632,
      125264, 130032]"

definition unicode_decimal :: "nat \<Rightarrow> nat option" where
  "unicode_decimal c =
     (case filter (\<lambda>z. z \<le> c \<and> c < z + 10) nd_zeros of
        [] \<Rightarrow> None
      | z # zs \<Rightarrow> Some (c - z))"

text \<open>
  Whitespace. \<open>str.strip()\<close> and \<open>\s\<close> of the pattern take the characters of
  \<open>str.isspace\<close>, listed in \<open>spaces\<close>. \<open>float\<close> trims the same characters but
  the code points 28 to 31.
\<close>

definition spaces :: "nat list" where
  "spaces =
     [9, 10, 11, 12, 13, 28, 29, 30, 31, 32, 133, 160, 5760, 8192, 8193, 8194, 8195, 8196,
      8197, 8198, 8199, 8200, 8201, 8202, 8232, 8233, 8239, 8287, 12288]"

definition is_space :: "nat \<Rightarrow> bool" where
  "is_space c = (c \<in> set spaces)"

definition float_space :: "nat \<Rightarrow> bool" where
  "float_space c = (is_space c \<and> \<not> (28 \<le> c \<and> c \<le> 31))"

definition strip_with :: "(nat \<Rightarrow> bool) \<Rightarrow> pystr \<Rightarrow> pystr" where
  "strip_with sp s = rev (dropWhile sp (rev (dropWhile sp s)))"

definition py_strip :: "pystr \<Rightarrow> pystr" where
  "py_strip s = strip_with is_space s"

text \<open>
  Python's built-in \<open>float\<close> on text, after the grammar of the language reference (it
  is not code of the repository): optional whitespace around an optional sign followed
  by \<open>inf\<close>, \<open>infinity\<close> or \<open>nan\<close> in any letter case, or by digits with an
  optional point and an optional exponent, at least one digit before or after the point.
  An underscore may stand between two digits. The value is exact: rounding to a float
  and overflow are not modelled. \<open>None\<close> stands for \<open>ValueError\<close>.
\<close>

definition ascii_lower :: "nat \<Rightarrow> nat" where
  "ascii_lower c = (if 65 \<le> c \<and> c \<le> 90 then c + 32 else c)"

definition word_inf :: pystr where
  "word_inf = [105, 110, 102]"

definition word_infinity :: pystr where
  "word_infinity = [105, 110, 102, 105, 110, 105, 116, 121]"

definition word_nan :: pystr where
  "word_nan = [110, 97, 110]"

fun underscores_ok :: "(nat \<Rightarrow> nat option) \<Rightarrow> nat option \<Rightarrow> pystr \<Rightarrow> bool" where
  "underscores_ok dec prev [] = (prev \<noteq> Some chr_underscore)"
| "underscores_ok dec prev (c # cs) =
     (if c = chr_underscore
      then (case prev of Some p \<Rightarrow> is_digit dec p | None \<Rightarrow> False) \<and>
           underscores_ok dec (Some c) cs
      else if prev = Some chr_underscore then is_digit dec c \<and> underscores_ok dec (Some c) cs
      else underscores_ok dec (Some c) cs)"

definition py_neg :: "pyfloat \<Rightarrow> pyfloat" where
  "py_neg f = (case f of Finite r \<Rightarrow> Finite (- r) | PosInf \<Rightarrow> NegInf | NegInf \<Rightarrow> PosInf | NaN \<Rightarrow> NaN)"

definition int_times_float :: "int \<Rightarrow> pyfloat \<Rightarrow> pyfloat" where
  "int_times_float n f =
     (case f of
        Finite r \<Rightarrow> Finite (of_int n * r)
      | NaN \<Rightarrow> NaN
      | _ \<Rightarrow> if n = 0 then NaN else if 0 < n then f else py_neg f)"

definition parse_exponent :: "(nat \<Rightarrow> nat option) \<Rightarrow> pystr \<Rightarrow> int option" where
  "parse_exponent dec s =
     (case s of
        [] \<Rightarrow> Some 0
      | c # r \<Rightarrow>
          if c = chr_e \<or> c = chr_E then
            (let (neg, ds) =
                   (case r of
                      [] \<Rightarrow> (False, r)
                    | d # r' \<Rightarrow>
                        if d = chr_minus then (True, r')
                        else if d = chr_plus then (False, r')
                        else (False, r))
             in if ds \<noteq> [] \<and> list_all (is_digit dec) ds
                then Some (if neg then - int (digits_value dec ds) else int (digits_value dec ds))
                else None)
          else None)"

definition scale10 :: "real \<Rightarrow> int \<Rightarrow> real" where
  "scale10 x e = (if 0 \<le> e then x * 10 ^ nat e else x / 10 ^ nat (- e))"

definition parse_unsigned :: "(nat \<Rightarrow> nat option) \<Rightarrow> pystr \<Rightarrow> pyfloat option" where
  "parse_unsigned dec s =
     (let l = map ascii_lower s in
      if l = word_inf \<or> l = word_infinity then Some PosInf
      else if l = word_nan then Some NaN
      else
        (let ip = takeWhile (is_digit dec) s;
             r1 = dropWhile (is_digit dec) s;
             (fp, r2) =
               (case r1 of
                  [] \<Rightarrow> ([], r1)
                | c # r \<Rightarrow>
                    if c = chr_dot then (takeWhile (is_digit dec) r, dropWhile (is_digit dec) r)
                    else ([], r1))
         in if ip = [] \<and> fp = [] then None
            else
              (case parse_exponent dec r2 of
                 None \<Rightarrow> None
               | Some e \<Rightarrow>
                   Some (Finite (scale10
                     (real (digits_value dec ip) + real (digits_value dec fp) / 10 ^ length fp)
                     e)))))"

definition py_float :: "(nat \<Rightarrow> nat option) \<Rightarrow> pystr \<Rightarrow> pyfloat option" where
  "py_float dec s =
     (if \<not> underscores_ok dec None s then None
      else
        (case strip_with float_space (filter (\<lambda>c. c \<noteq> chr_underscore) s) of
           [] \<Rightarrow> None
         | c # r \<Rightarrow>
             if c = chr_minus then map_option py_neg (parse_unsigned dec r)
             else if c = chr_plus then parse_unsigned dec r
             else parse_unsigned dec (c # r)))"

text \<open>
  The pattern of \<open>parse_complex\<close>,
  \<open>([+-]?\d+\.?\d*)\s*([+-])\s*(\d+\.?\d*)\s*[i...]\<close>, applied by \<open>re.match\<close>:
  the match starts at the first character and need not reach the last. The class of the
  imaginary unit holds, as the source file has it, the four characters \<open>i\<close>, U+00E2,
  U+2026 and U+02C6. Every repetition takes as many characters as it can;
  \<open>re_match_iff\<close> below shows that this finds a match whenever the pattern has one.
  The result holds the three groups and the text left after the match.
\<close>

definition imag_glyphs :: "nat list" where
  "imag_glyphs = [105, 226, 8230, 710]"

definition match_number :: "(nat \<Rightarrow> nat option) \<Rightarrow> pystr \<Rightarrow> (pystr \<times> pystr) option" where
  "match_number dec s =
     (let ds = takeWhile (is_digit dec) s; r1 = dropWhile (is_digit dec) s
      in if ds = [] then None
         else
           (case r1 of
              [] \<Rightarrow> Some (ds, r1)
            | c # r2 \<Rightarrow>
                if c = chr_dot
                then Some (ds @ [c] @ takeWhile (is_digit dec) r2, dropWhile (is_digit dec) r2)
                else Some (ds, r1)))"

definition match_sign :: "pystr \<Rightarrow> pystr \<times> pystr" where
  "match_sign s =
     (case s of
        [] \<Rightarrow> ([], s)
      | c # r \<Rightarrow> if c = chr_plus \<or> c = chr_minus then ([c], r) else ([], s))"

definition re_match ::
  "(nat \<Rightarrow> nat option) \<Rightarrow> pystr \<Rightarrow> (pystr \<times> nat \<times> pystr \<times> pystr) option"
where
  "re_match dec s =
     (let (sg, s1) = match_sign s in
      case match_number dec s1 of
        None \<Rightarrow> None
      | Some (t1, s2) \<Rightarrow>
          (case dropWhile is_space s2 of
             [] \<Rightarrow> None
           | c # s3 \<Rightarrow>
               if c = chr_plus \<or> c = chr_minus then
                 (case match_number dec (dropWhile is_space s3) of
                    None \<Rightarrow> None
                  | Some (t3, s4) \<Rightarrow>
                      (case dropWhile is_space s4 of
                         [] \<Rightarrow> None
                       | g # rest \<Rightarrow>
                           if g \<in> set imag_glyphs then Some (sg @ t1, c, t3, rest)
                           else None))
               else None))"

text \<open>
  \<open>parse_complex\<close>: the text is stripped; when the pattern matches, the groups are
  converted by \<open>float\<close>; otherwise \<open>float\<close> is tried on the whole text, and its
  \<open>ValueError\<close> is raised again as a \<open>ValueError\<close>.
\<close>

definition parse_complex :: "(nat \<Rightarrow> nat option) \<Rightarrow> pystr \<Rightarrow> error + pycomplex" where
  "parse_complex dec s0 =
     (let s = py_strip s0 in
      case re_match dec s of
        Some (group1, group2, group3, rest) \<Rightarrow>
          (case py_float dec group1 of
             None \<Rightarrow> Inl ValueError
           | Some real_part \<Rightarrow>
               (let sign = (if group2 = chr_minus then - 1 else 1) in
                case py_float dec group3 of
                  None \<Rightarrow> Inl ValueError
                | Some imag_abs \<Rightarrow> Inr (PyComplex real_part (int_times_float sign imag_abs))))
      | None \<Rightarrow>
          (case py_float dec s of
             Some r \<Rightarrow> Inr (PyComplex r (Finite 0))
           | None \<Rightarrow> Inl ValueError))"

text \<open>
  The forms of the specification, stated without the matcher. A decimal numeral is one
  or more digits, optionally followed by a point and further digits; the real part may
  carry a sign. \<open>affine_split dec s re_text sg im_text rest\<close>: the text \<open>s\<close> is the
  real part, the sign \<open>sg\<close>, the imaginary part and a character of the imaginary-unit
  class, with optional whitespace before the sign, after it and before the unit,
  followed by \<open>rest\<close>. The text has the form \<open><real> + <imag>i\<close> or
  \<open><real> - <imag>i\<close> when \<open>rest\<close> is empty. \<open>float_char\<close>: the characters of a
  number that \<open>float\<close> reads. \<open>digits_ok\<close>: no whitespace character and no character
  of the imaginary-unit class is a decimal digit, as in every version of Unicode.
\<close>

definition decimal_text :: "(nat \<Rightarrow> nat option) \<Rightarrow> pystr \<Rightarrow> bool" where
  "decimal_text dec t =
     (\<exists>ds fs. ds \<noteq> [] \<and> list_all (is_digit dec) ds \<and> list_all (is_digit dec) fs \<and>
        (t = ds \<or> t = ds @ chr_dot # fs))"

definition signed_decimal_text :: "(nat \<Rightarrow> nat option) \<Rightarrow> pystr \<Rightarrow> bool" where
  "signed_decimal_text dec t =
     (\<exists>u. decimal_text dec u \<and> (t = u \<or> t = chr_plus # u \<or> t = chr_minus # u))"

definition affine_split ::
  "(nat \<Rightarrow> nat option) \<Rightarrow> pystr \<Rightarrow> pystr \<Rightarrow> nat \<Rightarrow> pystr \<Rightarrow> pystr \<Rightarrow> bool"
where
  "affine_split dec s re_text sg im_text rest =
     (\<exists>ws1 ws2 ws3 glyph.
        s = re_text @ ws1 @ sg # ws2 @ im_text @ ws3 @ glyph # rest \<and>
        signed_decimal_text dec re_text \<and> list_all is_space ws1 \<and>
        (sg = chr_plus \<or> sg = chr_minus) \<and> list_all is_space ws2 \<and>
        decimal_text dec im_text \<and> list_all is_space ws3 \<and> glyph \<in> set imag_glyphs)"

definition float_char :: "(nat \<Rightarrow> nat option) \<Rightarrow> nat \<Rightarrow> bool" where
  "float_char dec c = (is_digit dec c \<or> c \<in> set [chr_dot, chr_e, chr_E, chr_plus, chr_minus])"

definition digits_ok :: "(nat \<Rightarrow> nat option) \<Rightarrow> bool" where
  "digits_ok dec = list_all (\<lambda>c. \<not> is_digit dec c) (spaces @ imag_glyphs)"

section \<open>The validators on their built-in cases\<close>

lemma validate_zdotu_passes: "validate_zdotu = Inr True"
  by (simp add: validate_zdotu_def zdotu_test_cases_def np_dot_def passed_def
      np_allclose_def DEFAULT_TOL_def cmod_def)

lemma validate_zdotc_passes: "validate_zdotc = Inr True"
  by (simp add: validate_zdotc_def zdotc_test_cases_def np_vdot_def passed_def
      np_allclose_def DEFAULT_TOL_def cmod_def)

lemma validate_asum_passes: "validate_asum = Inr True"
  by (simp add: validate_asum_def asum_test_cases_def dzasum_def np_sum_def np_abs_def
      np_real_def np_imag_def passed_def np_allclose_def DEFAULT_TOL_def)

lemma validate_norms_passes: "validate_norms = Inr True"
proof -
  have a: "sqrt 25 = 5" by simp
  have b: "(3 / 5 :: real)\<^sup>2 + (4 / 5)\<^sup>2 = 1"
    by (simp add: power_divide)
  show ?thesis
    by (simp add: validate_norms_def norm_test_cases_def np_linalg_norm_def passed_def
        np_allclose_def DEFAULT_TOL_def cmod_power2 a b)
qed

lemma validate_level2_returns_True: "validate_level2_operations = Inr True"
  by (simp add: validate_level2_operations_def np_matvec_def np_add_def np_scale_def
      np_scale_mat_def)

lemma generate_test_summary_passes: "generate_test_summary = Inr True"
  by (simp add: generate_test_summary_def generate_test_summary_from_def
      validate_zdotu_passes validate_zdotc_passes validate_norms_passes
      validate_asum_passes validate_level2_returns_True)

section \<open>The comparison of a result with its expected value\<close>

text \<open>
  C3. A compared pair passes exactly when the modulus of the difference is at most
  \<open>1e-10\<close>. The bound is absolute: the relative tolerance passed to the comparison is
  0, so the size of the expected value plays no part. The validators compare complex
  results (the dot products) and real results (the norm and the sum of magnitudes).
\<close>

theorem passed_iff_within_absolute_tolerance:
  "(passed (result :: complex) expected \<longleftrightarrow> cmod (result - expected) \<le> 1 / 10 ^ 10) \<and>
   (passed (r :: real) e \<longleftrightarrow> \<bar>r - e\<bar> \<le> 1 / 10 ^ 10)"
  by (simp add: passed_def np_allclose_def DEFAULT_TOL_def)

theorem passed_iff_within_absolute_tolerance_witness:
  "passed (Complex 7 1) (Complex 7 1) \<and> \<not> passed (1000000 + 1 / 10 ^ 9 :: real) 1000000"
  using passed_iff_within_absolute_tolerance [of "Complex 7 1" "Complex 7 1"
      "1000000 + 1 / 10 ^ 9" 1000000]
  by simp

section \<open>The sum of magnitudes\<close>

lemma sum_list_cmod_le:
  "(\<Sum>z\<leftarrow>x. cmod z) \<le> (\<Sum>z\<leftarrow>x. \<bar>Re z\<bar> + \<bar>Im z\<bar>)"
proof (induction x)
  case Nil
  show ?case by simp
next
  case (Cons z zs)
  have "cmod z \<le> \<bar>Re z\<bar> + \<bar>Im z\<bar>"
    by (rule cmod_le)
  with Cons show ?case by simp
qed

text \<open>
  C4. \<open>dzasum\<close> of a complex vector is the sum of the absolute values of the real
  parts plus the sum of the absolute values of the imaginary parts, which is the sum over
  the entries of \<open>|Re| + |Im|\<close>. It is not the sum of the moduli, which it bounds
  from above: on \<open>[3+4i, -1+0i]\<close> it is 8, and the moduli add up to 6.
\<close>

theorem dzasum_is_sum_of_component_magnitudes:
  "dzasum x = (\<Sum>z\<leftarrow>x. \<bar>Re z\<bar>) + (\<Sum>z\<leftarrow>x. \<bar>Im z\<bar>) \<and>
   dzasum x = (\<Sum>z\<leftarrow>x. \<bar>Re z\<bar> + \<bar>Im z\<bar>) \<and>
   (\<Sum>z\<leftarrow>x. cmod z) \<le> dzasum x \<and>
   dzasum [Complex 3 4, Complex (- 1) 0] = 8 \<and>
   (\<Sum>z\<leftarrow>[Complex 3 4, Complex (- 1) 0]. cmod z) = 6"
proof -
  have parts: "dzasum x = (\<Sum>z\<leftarrow>x. \<bar>Re z\<bar>) + (\<Sum>z\<leftarrow>x. \<bar>Im z\<bar>)"
    by (simp add: dzasum_def np_sum_def np_abs_def np_real_def np_imag_def comp_def)
  have joint: "dzasum x = (\<Sum>z\<leftarrow>x. \<bar>Re z\<bar> + \<bar>Im z\<bar>)"
    by (simp add: parts sum_list_addf)
  have bound: "(\<Sum>z\<leftarrow>x. cmod z) \<le> dzasum x"
    using sum_list_cmod_le [of x] by (simp add: joint)
  have example: "dzasum [Complex 3 4, Complex (- 1) 0] = 8"
    by (simp add: dzasum_def np_sum_def np_abs_def np_real_def np_imag_def)
  have "sqrt 25 = 5" by simp
  then have moduli: "(\<Sum>z\<leftarrow>[Complex 3 4, Complex (- 1) 0]. cmod z) = 6"
    by (simp add: cmod_def)
  from parts joint bound example moduli show ?thesis by blast
qed

theorem dzasum_is_sum_of_component_magnitudes_witness:
  "dzasum [Complex 1 1, Complex (- 2) 3, Complex 0 (- 4)] = 11"
  using dzasum_is_sum_of_component_magnitudes
      [of "[Complex 1 1, Complex (- 2) 3, Complex 0 (- 4)]"]
  by simp

section \<open>The unconjugated dot product of the third built-in case\<close>

text \<open>
  C8 as stated fails: the vectors \<open>x = [1+0i, 0+1i]\<close>, \<open>y = [0+3i, 0+4i]\<close> have the
  unconjugated dot product \<open>-4+3i\<close>, not \<open>-11+0i\<close>.
\<close>

theorem np_dot_scenario_counterexample:
  "np_dot [Complex 1 0, Complex 0 1] [Complex 0 3, Complex 0 4] = Inr (Complex (- 4) 3) \<and>
   np_dot [Complex 1 0, Complex 0 1] [Complex 0 3, Complex 0 4] \<noteq> Inr (Complex (- 11) 0)"
  by (simp add: np_dot_def complex_eq_iff)

text \<open>
  C8, amended. The case of \<open>validate_zdotu\<close> whose expected value is \<open>-11+0i\<close> has
  the vectors \<open>x = [0+1i, 0+2i]\<close>, \<open>y = [0+3i, 0+4i]\<close>, and their unconjugated dot
  product is \<open>-11+0i\<close>.
\<close>

theorem np_dot_third_case:
  "zdotu_test_cases ! 2 =
     ([Complex 0 1, Complex 0 2], [Complex 0 3, Complex 0 4], Complex (- 11) 0) \<and>
   np_dot [Complex 0 1, Complex 0 2] [Complex 0 3, Complex 0 4] = Inr (Complex (- 11) 0)"
  by (simp add: zdotu_test_cases_def np_dot_def complex_eq_iff)

section \<open>The exit status of the validation script\<close>

text \<open>
  C9 as stated fails: every built-in scenario passes, and when the fixture generator ends
  with return code 2 the run ends by the uncaught \<open>CalledProcessError\<close>, with a status
  other than 0.
\<close>

theorem main_exit_counterexample:
  "generate_test_summary = Inr True \<and> main 2 = Uncaught CalledProcessError \<and>
   exit_code (main 2) \<noteq> 0"
  by (simp add: main_def main_from_def generate_test_summary_passes subprocess_run_check_def)

text \<open>
  C9, amended. The summary is the conjunction of the five scenario results. The script
  ends with \<open>sys.exit(0)\<close> exactly when every scenario passed and the fixture generator
  it runs before exiting returned 0; its exit status is 0 in that case and 1 in every
  other (a failed scenario, or the exception of a failed generator run).
\<close>

theorem main_exit_code:
  "generate_test_summary_from (Inr r1) (Inr r2) (Inr r3) (Inr r4) (Inr r5) =
     Inr (r1 \<and> r2 \<and> r3 \<and> r4 \<and> r5) \<and>
   (main_from summary returncode = SysExit 0 \<longleftrightarrow> summary = Inr True \<and> returncode = 0) \<and>
   exit_code (main_from summary returncode) =
     (if summary = Inr True \<and> returncode = 0 then 0 else 1)"
  by (cases summary)
    (auto simp: generate_test_summary_from_def main_from_def subprocess_run_check_def)

theorem main_exit_code_witness:
  "exit_code (main_from (generate_test_summary_from (Inr True) (Inr True) (Inr True)
      (Inr True) (Inr True)) 0) = 0 \<and>
   exit_code (main_from (generate_test_summary_from (Inr True) (Inr False) (Inr True)
      (Inr True) (Inr True)) 0) = 1 \<and>
   exit_code (main_from (generate_test_summary_from (Inr True) (Inr True) (Inr True)
      (Inr True) (Inr True)) 2) = 1"
  using main_exit_code [of True True True True True _ 0]
    main_exit_code [of True False True True True _ 0]
    main_exit_code [of True True True True True _ 2]
  by simp

section \<open>The Level 2 scenario\<close>

text \<open>
  C10 as stated fails in its last part: the four Level 1 scenarios pass, and when the
  fixture generator ends with return code 1 the harness still ends with status 1.
\<close>

theorem level1_passing_exit_counterexample:
  "validate_zdotu = Inr True \<and> validate_zdotc = Inr True \<and> validate_norms = Inr True \<and>
   validate_asum = Inr True \<and> exit_code (main 1) = 1"
  by (simp add: validate_zdotu_passes validate_zdotc_passes validate_norms_passes
      validate_asum_passes main_def main_from_def generate_test_summary_passes
      subprocess_run_check_def)

text \<open>
  C10, amended. \<open>validate_level2_operations\<close> returns \<open>True\<close>; with it as the fifth
  scenario the summary is the conjunction of the four Level 1 results, and so is what
  \<open>main\<close> does with the summary: the Level 2 scenario never adds a failure. The harness
  ends with a status other than 0 exactly when a Level 1 scenario failed or the fixture
  generator that \<open>main\<close> runs before it exits returned a code other than 0.
\<close>

theorem level2_never_fails:
  "validate_level2_operations = Inr True \<and>
   generate_test_summary_from (Inr r1) (Inr r2) (Inr r3) (Inr r4) validate_level2_operations =
     Inr (r1 \<and> r2 \<and> r3 \<and> r4) \<and>
   main_from (generate_test_summary_from (Inr r1) (Inr r2) (Inr r3) (Inr r4)
       validate_level2_operations) returncode =
     main_from (Inr (r1 \<and> r2 \<and> r3 \<and> r4)) returncode \<and>
   (exit_code (main_from (generate_test_summary_from (Inr r1) (Inr r2) (Inr r3) (Inr r4)
       validate_level2_operations) returncode) \<noteq> 0 \<longleftrightarrow>
     \<not> (r1 \<and> r2 \<and> r3 \<and> r4) \<or> returncode \<noteq> 0)"
  by (auto simp: validate_level2_returns_True generate_test_summary_from_def main_from_def
      subprocess_run_check_def)

theorem level2_never_fails_witness:
  "main_from (generate_test_summary_from (Inr True) (Inr True) (Inr True) (Inr True)
       validate_level2_operations) 0 = SysExit 0 \<and>
   main_from (generate_test_summary_from (Inr True) (Inr True) (Inr False) (Inr True)
       validate_level2_operations) 0 = SysExit 1 \<and>
   exit_code (main_from (generate_test_summary_from (Inr True) (Inr True) (Inr True) (Inr True)
       validate_level2_operations) 2) \<noteq> 0"
proof -
  have a: "main_from (generate_test_summary_from (Inr True) (Inr True) (Inr True) (Inr True)
       validate_level2_operations) 0 = main_from (Inr (True \<and> True \<and> True \<and> True)) 0"
    using level2_never_fails [of True True True True 0] by blast
  have b: "main_from (generate_test_summary_from (Inr True) (Inr True) (Inr False) (Inr True)
       validate_level2_operations) 0 = main_from (Inr (True \<and> True \<and> False \<and> True)) 0"
    using level2_never_fails [of True True False True 0] by blast
  have c: "exit_code (main_from (generate_test_summary_from (Inr True) (Inr True) (Inr True)
       (Inr True) validate_level2_operations) 2) \<noteq> 0"
    using level2_never_fails
      [of True True True True 2, THEN conjunct2, THEN conjunct2, THEN conjunct2]
    by simp
  show ?thesis
    unfolding a b using c by (simp add: main_from_def subprocess_run_check_def)
qed

section \<open>The triangular solver\<close>

lemma back_substitution_error:
  "length rows = length bs \<Longrightarrow> back_substitution i rows bs = Inl e \<Longrightarrow>
   e = LinAlgError ''Singular matrix''"
proof (induction rows arbitrary: i bs)
  case Nil
  then show ?case by simp
next
  case (Cons row rows)
  then obtain b bs' where bs: "bs = b # bs'" by (cases bs) auto
  with Cons show ?case
    by (auto split: sum.splits if_splits)
qed

lemma back_substitution_singular:
  "length rows = length bs \<Longrightarrow> k < length rows \<Longrightarrow> rows ! k ! (i + k) = 0 \<Longrightarrow>
   back_substitution i rows bs = Inl (LinAlgError ''Singular matrix'')"
proof (induction rows arbitrary: i bs k)
  case Nil
  then show ?case by simp
next
  case (Cons row rows)
  then obtain b bs' where bs: "bs = b # bs'" by (cases bs) auto
  have len: "length rows = length bs'" using Cons.prems bs by simp
  show ?case
  proof (cases k)
    case 0
    with Cons.prems have z: "row ! i = 0" by simp
    show ?thesis
    proof (cases "back_substitution (Suc i) rows bs'")
      case (Inl e)
      with back_substitution_error [OF len Inl] show ?thesis by (simp add: bs)
    next
      case (Inr xs)
      with z show ?thesis by (simp add: bs)
    qed
  next
    case (Suc k')
    with Cons.prems have "k' < length rows" "rows ! k' ! (Suc i + k') = 0" by simp_all
    from Cons.IH [OF len this] show ?thesis by (simp add: bs)
  qed
qed

lemma back_substitution_solves:
  "length rows = length bs \<Longrightarrow> \<forall>row\<in>set rows. i + length rows \<le> length row \<Longrightarrow>
   \<forall>k<length rows. rows ! k ! (i + k) \<noteq> 0 \<Longrightarrow>
   \<exists>xs. back_substitution i rows bs = Inr xs \<and> length xs = length rows \<and>
     (\<forall>k<length rows.
        sum_list (map2 (\<lambda>a b. a * b) (drop (i + k) (rows ! k)) (drop k xs)) = bs ! k)"
proof (induction rows arbitrary: i bs)
  case Nil
  then show ?case by simp
next
  case (Cons row rows)
  then obtain b bs' where bs: "bs = b # bs'" by (cases bs) auto
  have len: "length rows = length bs'" using Cons.prems bs by simp
  have wide: "\<forall>r\<in>set rows. Suc i + length rows \<le> length r" using Cons.prems(2) by simp
  have piv: "\<forall>k<length rows. rows ! k ! (Suc i + k) \<noteq> 0"
  proof (intro allI impI)
    fix k assume "k < length rows"
    then have "Suc k < length (row # rows)" by simp
    with Cons.prems(3) have "(row # rows) ! Suc k ! (i + Suc k) \<noteq> 0" by blast
    then show "rows ! k ! (Suc i + k) \<noteq> 0" by simp
  qed
  from Cons.IH [OF len wide piv] obtain xs where
    xs: "back_substitution (Suc i) rows bs' = Inr xs" "length xs = length rows"
      "\<forall>k<length rows. sum_list (map2 (\<lambda>a b. a * b) (drop (Suc i + k) (rows ! k)) (drop k xs)) = bs' ! k"
    by blast
  from Cons.prems(3) have p0: "row ! i \<noteq> 0" by auto
  from Cons.prems(2) have i_lt: "i < length row" by simp
  define S where "S = sum_list (map2 (\<lambda>a b. a * b) (drop (Suc i) row) xs)"
  define x0 where "x0 = (b - S) / row ! i"
  have res: "back_substitution i (row # rows) bs = Inr (x0 # xs)"
    using xs(1) p0 by (simp add: bs x0_def S_def)
  have row0: "sum_list (map2 (\<lambda>a b. a * b) (drop i row) (x0 # xs)) = b"
  proof -
    have "drop i row = row ! i # drop (Suc i) row"
      using i_lt by (simp add: Cons_nth_drop_Suc)
    then have "sum_list (map2 (\<lambda>a b. a * b) (drop i row) (x0 # xs)) = row ! i * x0 + S"
      by (simp add: S_def)
    also have "\<dots> = b" using p0 by (simp add: x0_def)
    finally show ?thesis .
  qed
  have "\<forall>k<length (row # rows).
      sum_list (map2 (\<lambda>a b. a * b) (drop (i + k) ((row # rows) ! k)) (drop k (x0 # xs))) = bs ! k"
  proof (intro allI impI)
    fix k assume k: "k < length (row # rows)"
    show "sum_list (map2 (\<lambda>a b. a * b) (drop (i + k) ((row # rows) ! k)) (drop k (x0 # xs))) = bs ! k"
    proof (cases k)
      case 0
      with row0 show ?thesis by (simp add: bs)
    next
      case (Suc k')
      with k have "k' < length rows" by simp
      with xs(3) have "sum_list (map2 (\<lambda>a b. a * b) (drop (Suc i + k') (rows ! k')) (drop k' xs)) = bs' ! k'"
        by blast
      with Suc show ?thesis by (simp add: bs)
    qed
  qed
  with res xs(2) show ?case by auto
qed

lemma zero_prefix_dot:
  "\<forall>j<k. row ! j = 0 \<Longrightarrow> k \<le> length row \<Longrightarrow>
   sum_list (map2 (\<lambda>a b. a * b) (take k row) (take k xs)) = (0::complex)"
proof -
  assume z: "\<forall>j<k. row ! j = 0" and k: "k \<le> length row"
  have "\<forall>p\<in>set (zip (take k row) (take k xs)). fst p = 0"
  proof
    fix p assume "p \<in> set (zip (take k row) (take k xs))"
    then have "fst p \<in> set (take k row)"
      using set_zip_leftD [of "fst p" "snd p" "take k row" "take k xs"] by simp
    then obtain j where "j < length (take k row)" "fst p = take k row ! j"
      by (auto simp: in_set_conv_nth)
    with z k show "fst p = 0" by simp
  qed
  then have eq: "map (\<lambda>(a, b). a * b) (zip (take k row) (take k xs)) =
      map (\<lambda>p. 0) (zip (take k row) (take k xs))"
    by (intro map_cong) auto
  show ?thesis unfolding eq by simp
qed

lemma upper_row_dot:
  assumes "\<forall>j<k. row ! j = 0" and "k \<le> length row"
  shows "sum_list (map2 (\<lambda>a b. a * b) row xs) =
         sum_list (map2 (\<lambda>a b. a * b) (drop k row) (drop k (xs :: complex list)))"
proof -
  have "zip row xs = take k (zip row xs) @ drop k (zip row xs)" by simp
  then have "sum_list (map2 (\<lambda>a b. a * b) row xs) =
      sum_list (map (\<lambda>(a, b). a * b) (take k (zip row xs))) +
      sum_list (map (\<lambda>(a, b). a * b) (drop k (zip row xs)))"
    by (metis map_append sum_list_append)
  also have "take k (zip row xs) = zip (take k row) (take k xs)" by (simp add: take_zip)
  also have "drop k (zip row xs) = zip (drop k row) (drop k xs)" by (simp add: drop_zip)
  finally show ?thesis using zero_prefix_dot [OF assms] by simp
qed

text \<open>
  C7. For a square \<open>U\<close> and a right-hand side \<open>b\<close> of its size: when \<open>U\<close> is upper
  triangular with no zero on its diagonal, the solver returns an \<open>x\<close> with
  \<open>U x = b\<close>; when the diagonal of \<open>U\<close> has a zero entry, the solver fails with the
  singular-matrix error and divides by no pivot.
\<close>

theorem np_linalg_solve_upper_triangular:
  assumes sq: "list_all (\<lambda>row. length row = length U) U" and lb: "length b = length U"
  shows "((\<forall>i<length U. \<forall>j<i. U ! i ! j = 0) \<and> (\<forall>i<length U. U ! i ! i \<noteq> 0) \<longrightarrow>
            (\<exists>x. np_linalg_solve U b = Inr x \<and> np_matvec U x = Inr b)) \<and>
         ((\<exists>i<length U. U ! i ! i = 0) \<longrightarrow>
            np_linalg_solve U b = Inl (LinAlgError ''Singular matrix''))"
proof (intro conjI impI)
  assume "\<exists>i<length U. U ! i ! i = 0"
  then obtain i where "i < length U" "U ! i ! (0 + i) = 0" by auto
  from back_substitution_singular [OF lb [symmetric] this]
  show "np_linalg_solve U b = Inl (LinAlgError ''Singular matrix'')"
    using sq lb by (simp add: np_linalg_solve_def)
next
  assume a: "(\<forall>i<length U. \<forall>j<i. U ! i ! j = 0) \<and> (\<forall>i<length U. U ! i ! i \<noteq> 0)"
  have rows: "\<forall>row\<in>set U. length row = length U"
    using sq by (simp add: list_all_iff)
  then have wide: "\<forall>row\<in>set U. 0 + length U \<le> length row" by simp
  from a have piv: "\<forall>k<length U. U ! k ! (0 + k) \<noteq> 0" by simp
  from back_substitution_solves [OF lb [symmetric] wide piv] obtain xs where
    xs: "back_substitution 0 U b = Inr xs" "length xs = length U"
      "\<forall>k<length U. sum_list (map2 (\<lambda>a b. a * b) (drop (0 + k) (U ! k)) (drop k xs)) = b ! k"
    by blast
  have solve: "np_linalg_solve U b = Inr xs"
    using sq lb xs(1) by (simp add: np_linalg_solve_def)
  have "map (\<lambda>row. sum_list (map2 (\<lambda>a b. a * b) row xs)) U = b"
  proof (rule nth_equalityI)
    show "length (map (\<lambda>row. sum_list (map2 (\<lambda>a b. a * b) row xs)) U) = length b"
      using lb by simp
  next
    fix k assume "k < length (map (\<lambda>row. sum_list (map2 (\<lambda>a b. a * b) row xs)) U)"
    then have k: "k < length U" by simp
    then have "U ! k \<in> set U" by simp
    with rows have lk: "k \<le> length (U ! k)" using k by auto
    from a k have "\<forall>j<k. U ! k ! j = 0" by blast
    from upper_row_dot [OF this lk, of xs] xs(3) k
    show "map (\<lambda>row. sum_list (map2 (\<lambda>a b. a * b) row xs)) U ! k = b ! k" by simp
  qed
  moreover have "list_all (\<lambda>row. length row = length xs) U"
    using sq xs(2) by simp
  ultimately have "np_matvec U xs = Inr b" by (simp add: np_matvec_def)
  with solve show "\<exists>x. np_linalg_solve U b = Inr x \<and> np_matvec U x = Inr b" by blast
qed

theorem np_linalg_solve_upper_triangular_witness:
  "(\<exists>x. np_linalg_solve [[Complex 1 1, Complex 2 0], [0, Complex 4 1]] [1, 2] = Inr x \<and>
        np_matvec [[Complex 1 1, Complex 2 0], [0, Complex 4 1]] x = Inr [1, 2]) \<and>
   np_linalg_solve [[Complex 1 1, Complex 2 0], [0, 0]] [1, 2] =
     Inl (LinAlgError ''Singular matrix'')"
proof -
  let ?U = "[[Complex 1 1, Complex 2 0], [0, Complex 4 1]]"
  let ?V = "[[Complex 1 1, Complex 2 0], [0, 0 :: complex]]"
  let ?b = "[1, 2 :: complex]"
  have sqU: "list_all (\<lambda>row. length row = length ?U) ?U" by simp
  have sqV: "list_all (\<lambda>row. length row = length ?V) ?V" by simp
  have lb: "length ?b = length ?U" "length ?b = length ?V" by simp_all
  have upper: "\<forall>i<length ?U. \<forall>j<i. ?U ! i ! j = 0"
    by (auto simp: less_Suc_eq)
  have piv: "\<forall>i<length ?U. ?U ! i ! i \<noteq> 0"
    by (auto simp: less_Suc_eq complex_eq_iff)
  have zero: "\<exists>i<length ?V. ?V ! i ! i = 0"
    by (rule exI [of _ 1]) simp
  from np_linalg_solve_upper_triangular [OF sqU lb(1)] upper piv
  have one: "\<exists>x. np_linalg_solve ?U ?b = Inr x \<and> np_matvec ?U x = Inr ?b" by blast
  from np_linalg_solve_upper_triangular [OF sqV lb(2)] zero
  have two: "np_linalg_solve ?V ?b = Inl (LinAlgError ''Singular matrix'')" by blast
  from one two show ?thesis by blast
qed

section \<open>The upper-triangular fixture\<close>

lemma map_of_dict_set:
  "map_of (dict_set d k v) k' = (if k' = k then Some v else map_of d k')"
  by (induction d) auto

lemma set_result_other:
  "set_result tc k v = Inr tc' \<Longrightarrow> k' \<noteq> ''results'' \<Longrightarrow> map_of tc' k' = map_of tc k'"
  by (auto simp: set_result_def map_of_dict_set split: option.splits json.splits)

lemma set_result_keeps_U:
  "set_result tc k v = Inr tc' \<Longrightarrow> map_of tc' ''U'' = map_of tc ''U''"
  by (rule set_result_other) simp_all

lemma level2_square_part_U:
  assumes "level2_square_part n A x y alpha beta tc g = Inr (tc', g')"
  shows "map_of tc' ''U'' = Some (matrix_to_list (np_triu A))"
  using assms
  by (auto simp: level2_square_part_def Let_def map_of_dict_set
      dest!: set_result_keeps_U split: sum.splits prod.splits)

lemma level2_test_case_U:
  assumes "level2_test_case m n g = Inr (tc, g')" and "map_of tc ''U'' = Some U"
  shows "m = n \<and> U = matrix_to_list (np_triu (fst (complex_randn2 m n g)))"
proof (cases "m = n")
  case True
  with assms(1) obtain x y alpha beta tc0 g3 where
    "level2_square_part n (fst (complex_randn2 m n g)) x y alpha beta tc0 g3 = Inr (tc, g')"
    by (auto simp: level2_test_case_def Let_def split: sum.splits prod.splits)
  from level2_square_part_U [OF this] assms(2) True show ?thesis by simp
next
  case False
  with assms show ?thesis
    by (auto simp: level2_test_case_def Let_def split: sum.splits prod.splits)
qed

lemma complex_randn2_shape:
  "length (fst (complex_randn2 m n g)) = m \<and>
   (\<forall>row\<in>set (fst (complex_randn2 m n g)). length row = n)"
  by (auto simp: complex_randn2_def randn2_def Let_def set_zip)

lemma np_triu_row:
  "i < length A \<Longrightarrow> np_triu A ! i = map (\<lambda>(j, a). if j < i then 0 else a) (enumerate 0 (A ! i))"
  by (simp add: np_triu_def nth_enumerate_eq)

lemma matrix_to_list_triu_lower:
  assumes "\<forall>row\<in>set A. length row = length A"
  shows "\<exists>rows. matrix_to_list (np_triu A) = JArr rows \<and> length rows = length A \<and>
     (\<forall>i<length rows. \<exists>row. rows ! i = JArr row \<and> length row = length rows \<and>
        (\<forall>j<i. row ! j = JObj [(''real'', JFloat 0), (''imag'', JFloat 0)]))"
proof -
  let ?rows = "map (\<lambda>row. JArr (map complex_to_dict row)) (np_triu A)"
  have len: "length ?rows = length A" by (simp add: np_triu_def)
  have "\<forall>i<length ?rows. \<exists>row. ?rows ! i = JArr row \<and> length row = length ?rows \<and>
        (\<forall>j<i. row ! j = JObj [(''real'', JFloat 0), (''imag'', JFloat 0)])"
  proof (intro allI impI)
    fix i assume "i < length ?rows"
    then have i: "i < length A" by (simp add: np_triu_def)
    then have "A ! i \<in> set A" by simp
    with assms have li: "length (A ! i) = length A" by blast
    let ?row = "map complex_to_dict (np_triu A ! i)"
    have a: "?rows ! i = JArr ?row" using i by (simp add: np_triu_def)
    have b: "length ?row = length ?rows" using i li by (simp add: np_triu_def nth_enumerate_eq)
    have c: "\<forall>j<i. ?row ! j = JObj [(''real'', JFloat 0), (''imag'', JFloat 0)]"
      using i li by (simp add: np_triu_row nth_enumerate_eq complex_to_dict_def)
    from a b c show "\<exists>row. ?rows ! i = JArr row \<and> length row = length ?rows \<and>
        (\<forall>j<i. row ! j = JObj [(''real'', JFloat 0), (''imag'', JFloat 0)])" by blast
  qed
  with len show ?thesis by (auto simp: matrix_to_list_def)
qed

lemma level2_loop_tests:
  "level2_loop sizes acc g = Inr (tests, g') \<Longrightarrow> tc \<in> set tests \<Longrightarrow>
   tc \<in> set acc \<or> (\<exists>m n g1 g2. level2_test_case m n g1 = Inr (tc, g2))"
proof (induction sizes arbitrary: acc g)
  case Nil
  then show ?case by simp
next
  case (Cons mn sizes)
  obtain m n where mn: "mn = (m, n)" by (cases mn)
  from Cons.prems(1) obtain tc1 g1 where
    one: "level2_test_case m n g = Inr (tc1, g1)" and
    rest: "level2_loop sizes (acc @ [tc1]) g1 = Inr (tests, g')"
    by (auto simp: mn split: sum.splits)
  from Cons.IH [OF rest Cons.prems(2)] one show ?case by auto
qed

lemma rank1_no_U:
  "generate_rank1_update_tests g = Inr (tests, g') \<Longrightarrow> tc \<in> set tests \<Longrightarrow>
   map_of tc ''U'' = None"
  by (auto simp: generate_rank1_update_tests_def Let_def split: sum.splits prod.splits)

lemmas generator_defs =
  generate_level2_tests_def level2_test_case_def level2_square_part_def
  complex_randn2_def complex_randn_def randn_def randn2_def affine_matvec_def
  np_matvec_def np_scale_mat_def np_scale_def np_add_def np_add_mat_def conj_T_def
  np_div_mat_def np_triu_def np_linalg_solve_def set_result_def
  generate_rank1_update_tests_def np_outer_def array_to_list_def matrix_to_list_def
  complex_to_dict_def

text \<open>
  C6. Every test case that \<open>generate_level2_tests\<close> produces with an entry \<open>U\<close>
  stores under it a square list of rows in which every entry whose row index is greater
  than its column index is \<open>{"real": 0.0, "imag": 0.0}\<close>, whatever the pseudo-random
  source draws.
\<close>

theorem generated_U_strictly_lower_zero:
  assumes "generate_level2_tests g = Inr (tests, g')"
    and "test_case \<in> set tests"
    and "map_of test_case ''U'' = Some U"
  shows "\<exists>rows. U = JArr rows \<and>
     (\<forall>i<length rows. \<exists>row. rows ! i = JArr row \<and> length row = length rows \<and>
        (\<forall>j<i. row ! j = JObj [(''real'', JFloat 0), (''imag'', JFloat 0)]))"
proof -
  from assms(1) obtain l2 g1 r1 where
    loop: "level2_loop [(2, 2), (3, 3), (4, 3), (3, 4)] [] g = Inr (l2, g1)" and
    rank1: "generate_rank1_update_tests g1 = Inr (r1, g')" and
    tests: "tests = l2 @ r1"
    by (auto simp: generate_level2_tests_def split: sum.splits)
  from assms(2) tests have "test_case \<in> set l2 \<or> test_case \<in> set r1" by simp
  moreover have "test_case \<notin> set r1"
    using rank1_no_U [OF rank1] assms(3) by auto
  ultimately have "test_case \<in> set l2" by blast
  from level2_loop_tests [OF loop this] obtain m n g2 g3 where
    "level2_test_case m n g2 = Inr (test_case, g3)" by auto
  from level2_test_case_U [OF this assms(3)]
  have sq: "m = n" and U: "U = matrix_to_list (np_triu (fst (complex_randn2 m n g2)))"
    by simp_all
  let ?A = "fst (complex_randn2 m n g2)"
  from complex_randn2_shape [of m n g2] sq
  have "\<forall>row\<in>set ?A. length row = length ?A" by simp
  from matrix_to_list_triu_lower [OF this] U show ?thesis by blast
qed

theorem generated_U_strictly_lower_zero_witness:
  "\<exists>tests g' U rows row.
     generate_level2_tests (\<lambda>k. 1) = Inr (tests, g') \<and> tests ! 1 \<in> set tests \<and>
     map_of (tests ! 1) ''U'' = Some U \<and> U = JArr rows \<and> length rows = 3 \<and>
     rows ! 2 = JArr row \<and>
     row ! 0 = JObj [(''real'', JFloat 0), (''imag'', JFloat 0)] \<and>
     row ! 1 = JObj [(''real'', JFloat 0), (''imag'', JFloat 0)]"
proof -
  have "\<exists>tests g'. generate_level2_tests (\<lambda>k. 1) = Inr (tests, g') \<and> length tests = 5 \<and>
      (\<exists>rows. map_of (tests ! 1) ''U'' = Some (JArr rows) \<and> length rows = 3)"
    by (simp add: generator_defs Let_def enumerate_eq_zip upt_rec complex_eq_iff)
  then obtain tests g' rows where
    gen: "generate_level2_tests (\<lambda>k. 1) = Inr (tests, g')" and
    len: "length tests = 5" and
    U: "map_of (tests ! 1) ''U'' = Some (JArr rows)" and
    three: "length rows = 3"
    by blast
  from len have mem: "tests ! 1 \<in> set tests" by simp
  from generated_U_strictly_lower_zero [OF gen mem U]
  have low: "\<forall>i<length rows. \<exists>row. rows ! i = JArr row \<and> length row = length rows \<and>
      (\<forall>j<i. row ! j = JObj [(''real'', JFloat 0), (''imag'', JFloat 0)])"
    by simp
  from three have "2 < length rows" by simp
  with low obtain row where row: "rows ! 2 = JArr row"
    "\<forall>j<2. row ! j = JObj [(''real'', JFloat 0), (''imag'', JFloat 0)]"
    by blast
  from row(2) have "row ! 0 = JObj [(''real'', JFloat 0), (''imag'', JFloat 0)]"
    "row ! 1 = JObj [(''real'', JFloat 0), (''imag'', JFloat 0)]"
    by simp_all
  with gen mem U three row(1) show ?thesis by blast
qed

section \<open>The decoder: the matcher and the pattern\<close>

lemma not_digit_ascii [simp]:
  "\<not> is_digit dec chr_dot" "\<not> is_digit dec chr_plus" "\<not> is_digit dec chr_minus"
  "\<not> is_digit dec chr_underscore" "\<not> is_digit dec chr_e" "\<not> is_digit dec chr_E"
  by (simp_all add: is_digit_def digit_of_def)

lemma not_space_ascii [simp]:
  "\<not> is_space chr_dot" "\<not> is_space chr_plus" "\<not> is_space chr_minus"
  "\<not> is_space chr_underscore"
  by (simp_all add: is_space_def spaces_def)

lemma digits_okD:
  "digits_ok dec \<Longrightarrow> is_space c \<or> c \<in> set imag_glyphs \<Longrightarrow> \<not> is_digit dec c"
  by (auto simp: digits_ok_def list_all_iff is_space_def)

lemma digit_not_other:
  assumes "digits_ok dec" and "is_digit dec c"
  shows "\<not> is_space c \<and> c \<noteq> chr_dot \<and> c \<noteq> chr_plus \<and> c \<noteq> chr_minus \<and>
     c \<noteq> chr_underscore \<and> \<not> float_space c"
proof -
  from digits_okD [OF assms(1)] assms(2) have "\<not> is_space c" by blast
  moreover from assms(2) have "c \<noteq> chr_dot" "c \<noteq> chr_plus" "c \<noteq> chr_minus"
    "c \<noteq> chr_underscore"
    using not_digit_ascii by blast+
  ultimately show ?thesis by (simp add: float_space_def)
qed

lemma space_not_other:
  assumes "digits_ok dec" and "is_space c"
  shows "\<not> is_digit dec c \<and> c \<noteq> chr_dot \<and> c \<noteq> chr_plus \<and> c \<noteq> chr_minus"
proof -
  from digits_okD [OF assms(1)] assms(2) have "\<not> is_digit dec c" by blast
  moreover from assms(2) have "c \<noteq> chr_dot \<and> c \<noteq> chr_plus \<and> c \<noteq> chr_minus"
    using not_space_ascii by blast
  ultimately show ?thesis by blast
qed

lemma glyph_not_other:
  assumes "digits_ok dec" and "g \<in> set imag_glyphs"
  shows "\<not> is_digit dec g \<and> g \<noteq> chr_dot \<and> \<not> is_space g"
proof -
  from digits_okD [OF assms(1)] assms(2) have "\<not> is_digit dec g" by blast
  moreover from assms(2) have "g \<noteq> chr_dot \<and> \<not> is_space g"
    by (auto simp: imag_glyphs_def is_space_def spaces_def)
  ultimately show ?thesis by blast
qed

lemma takeWhile_all:
  "list_all P xs \<Longrightarrow> ys = [] \<or> \<not> P (hd ys) \<Longrightarrow> takeWhile P (xs @ ys) = xs"
  by (cases ys) (auto simp: list_all_iff takeWhile_append2)

lemma dropWhile_all:
  "list_all P xs \<Longrightarrow> ys = [] \<or> \<not> P (hd ys) \<Longrightarrow> dropWhile P (xs @ ys) = ys"
  by (cases ys) (auto simp: list_all_iff dropWhile_append2)

lemma match_number_sound:
  assumes "match_number dec s = Some (t, r)"
  shows "s = t @ r \<and> decimal_text dec t"
proof -
  let ?ds = "takeWhile (is_digit dec) s" and ?r1 = "dropWhile (is_digit dec) s"
  have ds: "list_all (is_digit dec) ?ds" by (auto simp: list_all_iff dest: set_takeWhileD)
  have split: "s = ?ds @ ?r1" by simp
  from assms have ne: "?ds \<noteq> []" by (auto simp: match_number_def Let_def split: if_splits)
  show ?thesis
  proof (cases ?r1)
    case Nil
    with assms ne have tr: "t = ?ds" "r = []" by (auto simp: match_number_def Let_def)
    have "decimal_text dec t"
      unfolding decimal_text_def tr using ds ne
      by (intro exI [of _ ?ds] exI [of _ "[]"]) simp
    with split Nil tr show ?thesis by simp
  next
    case (Cons c r2)
    show ?thesis
    proof (cases "c = chr_dot")
      case True
      let ?fs = "takeWhile (is_digit dec) r2"
      have fs: "list_all (is_digit dec) ?fs" by (auto simp: list_all_iff dest: set_takeWhileD)
      from assms ne Cons True have t: "t = ?ds @ chr_dot # ?fs" and r: "r = dropWhile (is_digit dec) r2"
        by (auto simp: match_number_def Let_def)
      have "s = ?ds @ chr_dot # (?fs @ dropWhile (is_digit dec) r2)"
        using split Cons True by simp
      then have "s = t @ r" using t r by simp
      moreover have "decimal_text dec t"
        unfolding decimal_text_def using t ds fs ne by blast
      ultimately show ?thesis by blast
    next
      case False
      with assms ne Cons have tr: "t = ?ds" "r = ?r1" by (auto simp: match_number_def Let_def)
      have "decimal_text dec t"
        unfolding decimal_text_def tr using ds ne
        by (intro exI [of _ ?ds] exI [of _ "[]"]) simp
      with split tr show ?thesis by simp
    qed
  qed
qed

lemma match_number_complete:
  assumes "decimal_text dec t" and "r = [] \<or> (\<not> is_digit dec (hd r) \<and> hd r \<noteq> chr_dot)"
  shows "match_number dec (t @ r) = Some (t, r)"
proof -
  from assms(1) obtain ds fs where ne: "ds \<noteq> []" and ds: "list_all (is_digit dec) ds"
    and fs: "list_all (is_digit dec) fs" and t: "t = ds \<or> t = ds @ chr_dot # fs"
    unfolding decimal_text_def by blast
  from assms(2) have nd: "r = [] \<or> \<not> is_digit dec (hd r)" by blast
  from t show ?thesis
  proof
    assume t: "t = ds"
    have tw: "takeWhile (is_digit dec) (ds @ r) = ds" and dw: "dropWhile (is_digit dec) (ds @ r) = r"
      using ds nd by (simp_all add: takeWhile_all dropWhile_all)
    have "match_number dec (ds @ r) =
        (if ds = [] then None
         else (case r of [] \<Rightarrow> Some (ds, r)
               | c # r2 \<Rightarrow>
                   if c = chr_dot
                   then Some (ds @ [c] @ takeWhile (is_digit dec) r2, dropWhile (is_digit dec) r2)
                   else Some (ds, r)))"
      unfolding match_number_def Let_def tw dw ..
    with ne assms(2) show ?thesis
      by (cases r) (auto simp: t)
  next
    assume t: "t = ds @ chr_dot # fs"
    have nodot: "\<not> is_digit dec chr_dot" by simp
    have a: "takeWhile (is_digit dec) (ds @ chr_dot # fs @ r) = ds"
      using ds nodot by (simp add: takeWhile_all)
    have b: "dropWhile (is_digit dec) (ds @ chr_dot # fs @ r) = chr_dot # fs @ r"
      using ds nodot by (simp add: dropWhile_all)
    have c: "takeWhile (is_digit dec) (fs @ r) = fs" "dropWhile (is_digit dec) (fs @ r) = r"
      using fs nd by (simp_all add: takeWhile_all dropWhile_all)
    show ?thesis
      using ne by (simp add: match_number_def Let_def t a b c)
  qed
qed

lemma decimal_text_hd:
  "decimal_text dec t \<Longrightarrow> t \<noteq> [] \<and> is_digit dec (hd t) \<and> (is_digit dec (last t) \<or> last t = chr_dot)"
  unfolding decimal_text_def
  by (auto simp: list_all_iff hd_append last_append
        intro: hd_in_set last_in_set)


lemma match_sign_cases:
  "match_sign s = (sg, s1) \<Longrightarrow> s = sg @ s1 \<and> (sg = [] \<or> sg = [chr_plus] \<or> sg = [chr_minus])"
  by (auto simp: match_sign_def split: list.splits if_splits)

lemma spaces_split:
  "s = takeWhile is_space s @ dropWhile is_space s \<and> list_all is_space (takeWhile is_space s)"
  by (auto simp: list_all_iff dest: set_takeWhileD)

lemma re_match_sound:
  assumes "re_match dec s = Some (g1, c, g3, rest)"
  shows "affine_split dec s g1 c g3 rest"
proof -
  obtain sg s1 where ms: "match_sign s = (sg, s1)" by (cases "match_sign s")
  from assms ms obtain t1 s2 where mn1: "match_number dec s1 = Some (t1, s2)"
    by (auto simp: re_match_def split: option.splits)
  from assms ms mn1 obtain s3 where d1: "dropWhile is_space s2 = c # s3"
    and c: "c = chr_plus \<or> c = chr_minus"
    by (auto simp: re_match_def split: option.splits list.splits if_splits)
  from assms ms mn1 d1 c obtain s4 where mn2: "match_number dec (dropWhile is_space s3) = Some (g3, s4)"
    by (auto simp: re_match_def split: option.splits list.splits if_splits)
  from assms ms mn1 d1 c mn2 obtain g where d3: "dropWhile is_space s4 = g # rest"
    and g: "g \<in> set imag_glyphs" and g1: "g1 = sg @ t1"
    by (auto simp: re_match_def split: option.splits list.splits if_splits)
  from match_sign_cases [OF ms] have s: "s = sg @ s1"
    and sg: "sg = [] \<or> sg = [chr_plus] \<or> sg = [chr_minus]" by simp_all
  from match_number_sound [OF mn1] have s1: "s1 = t1 @ s2" and t1: "decimal_text dec t1" by simp_all
  from match_number_sound [OF mn2] have s3: "dropWhile is_space s3 = g3 @ s4"
    and t3: "decimal_text dec g3" by simp_all
  let ?ws1 = "takeWhile is_space s2" and ?ws2 = "takeWhile is_space s3"
    and ?ws3 = "takeWhile is_space s4"
  have "s2 = ?ws1 @ c # s3" using spaces_split [of s2] d1 by simp
  moreover have "s3 = ?ws2 @ g3 @ s4" using spaces_split [of s3] s3 by simp
  moreover have "s4 = ?ws3 @ g # rest" using spaces_split [of s4] d3 by simp
  ultimately have "s = g1 @ ?ws1 @ c # ?ws2 @ g3 @ ?ws3 @ g # rest"
    using s s1 g1 by simp
  moreover have "signed_decimal_text dec g1"
    unfolding signed_decimal_text_def using t1 sg g1 by auto
  moreover have "list_all is_space ?ws1" "list_all is_space ?ws2" "list_all is_space ?ws3"
    using spaces_split by blast+
  ultimately show ?thesis
    unfolding affine_split_def using c t3 g by blast
qed

lemma re_match_complete:
  assumes ok: "digits_ok dec" and "affine_split dec s re_text sg im_text rest"
  shows "re_match dec s = Some (re_text, sg, im_text, rest)"
proof -
  from assms(2) obtain ws1 ws2 ws3 glyph where
    s: "s = re_text @ ws1 @ sg # ws2 @ im_text @ ws3 @ glyph # rest" and
    re: "signed_decimal_text dec re_text" and w1: "list_all is_space ws1" and
    sg: "sg = chr_plus \<or> sg = chr_minus" and w2: "list_all is_space ws2" and
    im: "decimal_text dec im_text" and w3: "list_all is_space ws3" and
    g: "glyph \<in> set imag_glyphs"
    unfolding affine_split_def by blast
  from re obtain u where u: "decimal_text dec u"
    and re_u: "re_text = u \<or> re_text = chr_plus # u \<or> re_text = chr_minus # u"
    unfolding signed_decimal_text_def by blast
  define tail1 where "tail1 = ws1 @ sg # ws2 @ im_text @ ws3 @ glyph # rest"
  define tail3 where "tail3 = ws3 @ glyph # rest"
  from decimal_text_hd [OF u] have u_ne: "u \<noteq> []" and u_hd: "is_digit dec (hd u)" by simp_all
  from decimal_text_hd [OF im] have im_ne: "im_text \<noteq> []" and im_hd: "is_digit dec (hd im_text)"
    by simp_all
  have sg_ns: "\<not> is_space sg" "\<not> is_digit dec sg" "sg \<noteq> chr_dot"
    using sg by auto
  have ms: "match_sign s = (take (length re_text - length u) re_text, u @ tail1)"
  proof -
    from u_ne obtain d u' where du: "u = d # u'" by (cases u) auto
    with u_hd have "d \<noteq> chr_plus" "d \<noteq> chr_minus" using digit_not_other [OF ok] by auto
    with re_u du show ?thesis
      by (auto simp: match_sign_def s tail1_def)
  qed
  have pre: "take (length re_text - length u) re_text @ u = re_text"
    using re_u by auto
  have t1_next: "tail1 = [] \<or> (\<not> is_digit dec (hd tail1) \<and> hd tail1 \<noteq> chr_dot)"
  proof (cases ws1)
    case Nil
    then show ?thesis using sg_ns by (simp add: tail1_def)
  next
    case (Cons w ws)
    with w1 have "is_space w" by simp
    with Cons show ?thesis using space_not_other [OF ok] by (simp add: tail1_def)
  qed
  have mn1: "match_number dec (u @ tail1) = Some (u, tail1)"
    by (rule match_number_complete [OF u t1_next])
  have d1: "dropWhile is_space tail1 = sg # ws2 @ im_text @ ws3 @ glyph # rest"
    unfolding tail1_def using w1 sg_ns(1) by (simp add: dropWhile_all)
  have d2: "dropWhile is_space (ws2 @ im_text @ ws3 @ glyph # rest) = im_text @ tail3"
  proof -
    have "\<not> is_space (hd (im_text @ tail3))"
      using im_ne im_hd digit_not_other [OF ok] by (simp add: hd_append)
    with w2 have "dropWhile is_space (ws2 @ (im_text @ tail3)) = im_text @ tail3"
      by (simp add: dropWhile_all)
    then show ?thesis by (simp add: tail3_def)
  qed
  have t3_next: "tail3 = [] \<or> (\<not> is_digit dec (hd tail3) \<and> hd tail3 \<noteq> chr_dot)"
  proof (cases ws3)
    case Nil
    then show ?thesis using glyph_not_other [OF ok g] by (simp add: tail3_def)
  next
    case (Cons w ws)
    with w3 have "is_space w" by simp
    with Cons show ?thesis using space_not_other [OF ok] by (simp add: tail3_def)
  qed
  have mn2: "match_number dec (im_text @ tail3) = Some (im_text, tail3)"
    by (rule match_number_complete [OF im t3_next])
  have d3: "dropWhile is_space tail3 = glyph # rest"
    unfolding tail3_def using w3 glyph_not_other [OF ok g] by (simp add: dropWhile_all)
  show ?thesis
    using sg g by (simp add: re_match_def ms mn1 d1 d2 mn2 d3 pre)
qed

lemma re_match_iff:
  "digits_ok dec \<Longrightarrow>
   re_match dec s = Some (re_text, sg, im_text, rest) \<longleftrightarrow>
     affine_split dec s re_text sg im_text rest"
  using re_match_sound re_match_complete by blast

lemma underscores_ok_none:
  "chr_underscore \<notin> set s \<Longrightarrow> p \<noteq> Some chr_underscore \<Longrightarrow> underscores_ok dec p s"
  by (induction s arbitrary: p) auto

lemma strip_with_id:
  assumes "s \<noteq> []" and "\<not> sp (hd s)" and "\<not> sp (last s)"
  shows "strip_with sp s = s"
proof -
  from assms(1,2) have a: "dropWhile sp s = s" by (cases s) auto
  from assms(1,3) have "\<not> sp (hd (rev s))" by (simp add: hd_rev)
  with assms(1) have b: "dropWhile sp (rev s) = rev s" by (cases "rev s") auto
  show ?thesis by (simp add: strip_with_def a b)
qed

lemma parse_unsigned_decimal:
  assumes "decimal_text dec u"
  shows "\<exists>x. parse_unsigned dec u = Some (Finite x)"
proof -
  from assms obtain ds fs where ne: "ds \<noteq> []" and ds: "list_all (is_digit dec) ds"
    and fs: "list_all (is_digit dec) fs" and u: "u = ds \<or> u = ds @ chr_dot # fs"
    unfolding decimal_text_def by blast
  from ne obtain d ds' where dd: "ds = d # ds'" by (cases ds) auto
  with ds have "is_digit dec d" by simp
  then have low: "ascii_lower d \<noteq> 105" "ascii_lower d \<noteq> 110"
    by (auto simp: is_digit_def digit_of_def ascii_lower_def split: if_splits)
  have hd: "\<exists>r. u = d # r" using u dd by auto
  then have not_word: "map ascii_lower u \<noteq> word_inf" "map ascii_lower u \<noteq> word_infinity"
      "map ascii_lower u \<noteq> word_nan"
    using low by (auto simp: word_inf_def word_infinity_def word_nan_def)
  have nodot: "\<not> is_digit dec chr_dot" by simp
  from u show ?thesis
  proof
    assume u: "u = ds"
    have a: "takeWhile (is_digit dec) u = ds" "dropWhile (is_digit dec) u = []"
      unfolding u using ds by (simp_all add: list_all_iff)
    from ne not_word show ?thesis
      by (simp add: parse_unsigned_def Let_def parse_exponent_def a)
  next
    assume u: "u = ds @ chr_dot # fs"
    have a: "takeWhile (is_digit dec) u = ds" "dropWhile (is_digit dec) u = chr_dot # fs"
      unfolding u using ds nodot by (simp_all add: takeWhile_all dropWhile_all)
    have b: "takeWhile (is_digit dec) fs = fs" "dropWhile (is_digit dec) fs = []"
      using fs by (simp_all add: list_all_iff)
    from ne not_word show ?thesis
      by (simp add: parse_unsigned_def Let_def parse_exponent_def a b)
  qed
qed

lemma py_float_signed_decimal:
  assumes dok: "digits_ok dec" and "signed_decimal_text dec t"
  shows "\<exists>x. py_float dec t = Some (Finite x)"
proof -
  from assms(2) obtain u where u: "decimal_text dec u"
    and t: "t = u \<or> t = chr_plus # u \<or> t = chr_minus # u"
    unfolding signed_decimal_text_def by blast
  from u obtain ds fs where ds: "list_all (is_digit dec) ds" and fs: "list_all (is_digit dec) fs"
    and uu: "u = ds \<or> u = ds @ chr_dot # fs"
    unfolding decimal_text_def by blast
  have "\<And>c. c \<in> set u \<Longrightarrow> is_digit dec c \<or> c = chr_dot"
    using uu ds fs by (auto simp: list_all_iff)
  then have no_us_u: "chr_underscore \<notin> set u"
    using not_digit_ascii(4) [of dec] by fastforce
  with t have no_us: "chr_underscore \<notin> set t" by auto
  then have ok: "underscores_ok dec None t" by (simp add: underscores_ok_none)
  from no_us have flt: "filter (\<lambda>c. c \<noteq> chr_underscore) t = t"
    by (simp add: filter_id_conv) metis
  from decimal_text_hd [OF u] have u_ne: "u \<noteq> []" and u_hd: "is_digit dec (hd u)"
    and u_last: "is_digit dec (last u) \<or> last u = chr_dot" by simp_all
  have t_ne: "t \<noteq> []" using t u_ne by auto
  have last_t: "last t = last u" using t u_ne by auto
  have "\<not> float_space (last t)"
    using u_last digit_not_other [OF dok] unfolding last_t
    by (auto simp: float_space_def)
  moreover have "\<not> float_space (hd t)"
    using t u_hd digit_not_other [OF dok]
    by (auto simp: float_space_def)
  ultimately have strip: "strip_with float_space t = t"
    using t_ne by (simp add: strip_with_id)
  from parse_unsigned_decimal [OF u] obtain x where x: "parse_unsigned dec u = Some (Finite x)"
    by blast
  from u_ne obtain d u' where du: "u = d # u'" by (cases u) auto
  with u_hd have d: "d \<noteq> chr_plus" "d \<noteq> chr_minus" using digit_not_other [OF dok] by auto
  from t show ?thesis
  proof (elim disjE)
    assume "t = u"
    with ok flt strip x du d show ?thesis by (simp add: py_float_def)
  next
    assume "t = chr_plus # u"
    with ok flt strip x show ?thesis by (simp add: py_float_def)
  next
    assume "t = chr_minus # u"
    with ok flt strip x show ?thesis by (simp add: py_float_def py_neg_def)
  qed
qed


lemma not_dropped:
  "x \<in> set xs \<Longrightarrow> \<not> P x \<Longrightarrow> x \<in> set (dropWhile P xs)"
  by (induction xs) auto

lemma kept_by_float_strip:
  assumes "x \<in> set s" and "x \<noteq> chr_underscore" and "\<not> float_space x"
  shows "x \<in> set (strip_with float_space (filter (\<lambda>c. c \<noteq> chr_underscore) s))"
proof -
  let ?f = "filter (\<lambda>c. c \<noteq> chr_underscore) s"
  from assms(1,2) have "x \<in> set ?f" by simp
  then have "x \<in> set (dropWhile float_space ?f)" using assms(3) by (rule not_dropped)
  then have "x \<in> set (rev (dropWhile float_space ?f))" by simp
  then have "x \<in> set (dropWhile float_space (rev (dropWhile float_space ?f)))"
    using assms(3) by (rule not_dropped)
  then show ?thesis by (simp add: strip_with_def)
qed

lemma parse_exponent_chars:
  assumes "parse_exponent dec r = Some e"
  shows "\<forall>c\<in>set r. float_char dec c"
proof (cases r)
  case Nil
  then show ?thesis by simp
next
  case (Cons c r')
  with assms have c: "c = chr_e \<or> c = chr_E"
    by (auto simp: parse_exponent_def split: if_splits)
  show ?thesis
  proof (cases r')
    case Nil
    with assms Cons c show ?thesis by (auto simp: parse_exponent_def)
  next
    case (Cons d r'')
    with assms \<open>r = c # r'\<close> c show ?thesis
      by (auto simp: parse_exponent_def float_char_def list_all_iff split: if_splits)
  qed
qed

lemma parse_unsigned_chars:
  assumes "parse_unsigned dec u = Some v"
  shows "(\<forall>c\<in>set u. \<not> is_digit dec c) \<or> (\<forall>c\<in>set u. float_char dec c)"
proof (cases "map ascii_lower u = word_inf \<or> map ascii_lower u = word_infinity \<or>
    map ascii_lower u = word_nan")
  case True
  have "\<forall>c\<in>set u. \<not> is_digit dec c"
  proof
    fix c assume "c \<in> set u"
    then have "ascii_lower c \<in> set (map ascii_lower u)" by simp
    with True have "ascii_lower c \<in> set [105, 110, 102, 116, 121, 97]"
      by (auto simp: word_inf_def word_infinity_def word_nan_def)
    then have "c < 128 \<and> \<not> (48 \<le> c \<and> c \<le> 57)"
      by (auto simp: ascii_lower_def split: if_splits)
    then show "\<not> is_digit dec c" by (simp add: is_digit_def digit_of_def)
  qed
  then show ?thesis by blast
next
  case False
  let ?ip = "takeWhile (is_digit dec) u" and ?r1 = "dropWhile (is_digit dec) u"
  have ip: "\<forall>c\<in>set ?ip. float_char dec c"
    by (auto simp: float_char_def dest: set_takeWhileD)
  have u: "u = ?ip @ ?r1" by simp
  have "\<forall>c\<in>set ?r1. float_char dec c"
  proof (cases ?r1)
    case Nil
    show ?thesis unfolding Nil by simp
  next
    case (Cons c r)
    show ?thesis
    proof (cases "c = chr_dot")
      case True
      have fp: "\<forall>c\<in>set (takeWhile (is_digit dec) r). float_char dec c"
        by (auto simp: float_char_def dest: set_takeWhileD)
      from assms False Cons True obtain e where "parse_exponent dec (dropWhile (is_digit dec) r) = Some e"
        by (auto simp: parse_unsigned_def Let_def split: if_splits option.splits)
      from parse_exponent_chars [OF this] fp
      have "\<forall>c\<in>set (takeWhile (is_digit dec) r @ dropWhile (is_digit dec) r). float_char dec c"
        by (metis Un_iff set_append)
      then have "\<forall>c\<in>set r. float_char dec c" by simp
      with Cons True show ?thesis by (simp add: float_char_def)
    next
      case nodot: False
      from assms False Cons nodot obtain e where "parse_exponent dec ?r1 = Some e"
        by (auto simp: parse_unsigned_def Let_def split: if_splits option.splits)
      from parse_exponent_chars [OF this] show ?thesis .
    qed
  qed
  with ip have "\<forall>c\<in>set (?ip @ ?r1). float_char dec c" by (metis Un_iff set_append)
  then show ?thesis by simp
qed

lemma py_float_chars:
  assumes ok: "digits_ok dec" and fl: "py_float dec s = Some v"
    and d_in: "d \<in> set s" and d_dig: "is_digit dec d"
    and g_in: "g \<in> set s" and g_nf: "\<not> float_char dec g"
    and g_nu: "g \<noteq> chr_underscore" and g_ns: "\<not> float_space g"
  shows False
proof -
  let ?t = "strip_with float_space (filter (\<lambda>c. c \<noteq> chr_underscore) s)"
  have d: "d \<in> set ?t"
    using d_in d_dig digit_not_other [OF ok] by (intro kept_by_float_strip) auto
  have g: "g \<in> set ?t"
    using g_in g_nu g_ns by (intro kept_by_float_strip) auto
  from fl obtain c r where t: "?t = c # r"
    by (cases ?t) (auto simp: py_float_def split: if_splits)
  have gsign: "g \<noteq> chr_plus" "g \<noteq> chr_minus" using g_nf by (auto simp: float_char_def)
  have dsign: "d \<noteq> chr_plus" "d \<noteq> chr_minus"
    using d_dig digit_not_other [OF ok] by auto
  from fl t obtain u w where pu: "parse_unsigned dec u = Some w"
    and du: "d \<in> set u" and gu: "g \<in> set u"
  proof (cases "c = chr_minus \<or> c = chr_plus")
    case True
    with fl t obtain w where "parse_unsigned dec r = Some w"
      by (auto simp: py_float_def split: if_splits)
    moreover from d g t True gsign dsign have "d \<in> set r" "g \<in> set r" by auto
    ultimately show ?thesis using that by blast
  next
    case False
    with fl t have "parse_unsigned dec (c # r) = Some v"
      by (auto simp: py_float_def split: if_splits)
    with d g t show ?thesis using that by metis
  qed
  from parse_unsigned_chars [OF pu] du gu d_dig g_nf show False by blast
qed

lemma affine_not_float:
  assumes ok: "digits_ok dec" and sp: "affine_split dec s re_text sg im_text rest"
  shows "py_float dec s = None"
proof (rule ccontr)
  assume "py_float dec s \<noteq> None"
  then obtain v where v: "py_float dec s = Some v" by blast
  from sp obtain ws1 ws2 ws3 glyph where
    s: "s = re_text @ ws1 @ sg # ws2 @ im_text @ ws3 @ glyph # rest" and
    im: "decimal_text dec im_text" and g: "glyph \<in> set imag_glyphs"
    unfolding affine_split_def by blast
  from decimal_text_hd [OF im] have "hd im_text \<in> set s" "is_digit dec (hd im_text)"
    unfolding s by simp_all
  moreover have "glyph \<in> set s" unfolding s by simp
  moreover have "\<not> float_char dec glyph"
    using glyph_not_other [OF ok g] g by (auto simp: float_char_def imag_glyphs_def)
  moreover have "glyph \<noteq> chr_underscore" using g by (auto simp: imag_glyphs_def)
  moreover have "\<not> float_space glyph"
    using glyph_not_other [OF ok g] by (simp add: float_space_def)
  ultimately show False using py_float_chars [OF ok v] by blast
qed

lemma int_times_float_sign:
  "int_times_float (if sg = chr_minus then - 1 else 1) (Finite y) =
     Finite (if sg = chr_minus then - y else y)"
  by (simp add: int_times_float_def)

lemma unicode_decimal_values:
  "unicode_decimal 1633 = Some 1" "unicode_decimal 1634 = Some 2"
  "unicode_decimal 1635 = Some 3" "unicode_decimal 8230 = None"
  by (simp_all add: unicode_decimal_def nd_zeros_def)

lemma unicode_decimal_ok: "digits_ok unicode_decimal"
proof -
  have "list_all (\<lambda>c. unicode_decimal c = None)
      [133, 160, 5760, 8192, 8193, 8194, 8195, 8196, 8197, 8198, 8199, 8200, 8201, 8202,
       8232, 8233, 8239, 8287, 12288, 226, 8230, 710]"
    unfolding list.pred_inject by (simp add: unicode_decimal_def nd_zeros_def)
  then show ?thesis
    by (simp add: digits_ok_def spaces_def imag_glyphs_def is_digit_def digit_of_def)
qed

lemmas float_eval =
  py_float_def strip_with_def float_space_def is_space_def spaces_def parse_unsigned_def
  ascii_lower_def word_inf_def word_infinity_def word_nan_def is_digit_def digit_of_def
  parse_exponent_def digits_value_def digit_value_def scale10_def py_neg_def
  unicode_decimal_values

lemmas match_eval =
  re_match_def match_sign_def match_number_def is_digit_def digit_of_def is_space_def
  spaces_def imag_glyphs_def unicode_decimal_values

text \<open>
  C5 as stated fails: the text \<open>1 + 2i junk\<close> neither has the form
  \<open><real> + <imag>i\<close> nor is a real number, and it is decoded to \<open>1+2i\<close>: the pattern
  is matched at the start of the text and what follows the imaginary unit is ignored.
\<close>

theorem parse_complex_trailing_text_counterexample:
  "\<not> (\<exists>re_text sg im_text.
        affine_split unicode_decimal (py_strip (code_points ''1 + 2i junk'')) re_text sg im_text []) \<and>
   py_float unicode_decimal (py_strip (code_points ''1 + 2i junk'')) = None \<and>
   parse_complex unicode_decimal (code_points ''1 + 2i junk'') =
     Inr (PyComplex (Finite 1) (Finite 2))"
proof -
  let ?s = "[49, 32, 43, 32, 50, 105, 32, 106, 117, 110, 107] :: nat list"
  have cp: "code_points ''1 + 2i junk'' = ?s"
    by (simp add: code_points_def)
  have strip: "py_strip ?s = ?s"
    by (simp add: py_strip_def strip_with_def is_space_def spaces_def)
  have m: "re_match unicode_decimal ?s = Some ([49], chr_plus, [50], [32, 106, 117, 110, 107])"
    by (simp add: match_eval)
  have no: "\<not> (\<exists>re_text sg im_text. affine_split unicode_decimal ?s re_text sg im_text [])"
  proof
    assume "\<exists>re_text sg im_text. affine_split unicode_decimal ?s re_text sg im_text []"
    then obtain re_text sg im_text where "affine_split unicode_decimal ?s re_text sg im_text []"
      by blast
    from re_match_complete [OF unicode_decimal_ok this] m show False by simp
  qed
  have fl: "py_float unicode_decimal ?s = None"
    using affine_not_float [OF unicode_decimal_ok re_match_sound [OF m]] .
  have one: "py_float unicode_decimal [49] = Some (Finite 1)"
    and two: "py_float unicode_decimal [50] = Some (Finite 2)"
    by (simp_all add: float_eval)
  have "parse_complex unicode_decimal ?s = Inr (PyComplex (Finite 1) (Finite 2))"
    by (simp add: parse_complex_def strip m one two int_times_float_def)
  with no fl show ?thesis by (simp add: cp strip)
qed

text \<open>
  C5, amended. Let the table of decimal digits be any in which no whitespace character
  and no character of the imaginary-unit class is a digit. After stripping, a text that
  begins with a signed decimal numeral, a sign \<open>+\<close> or \<open>-\<close>, a decimal numeral and
  a character of the imaginary-unit class of the pattern (whitespace may stand around
  the sign and before the unit, anything may follow the unit) is decoded to the complex
  number of the two numerals, the imaginary part negated after \<open>-\<close>; a text that
  \<open>float\<close> accepts is decoded to that number with imaginary part 0; a text with no
  such beginning that \<open>float\<close> rejects raises \<open>ValueError\<close>.
\<close>

theorem parse_complex_prefix_or_real:
  assumes ok: "digits_ok dec"
  shows
  "(affine_split dec (py_strip s) re_text sg im_text rest \<longrightarrow>
      (\<exists>x y. py_float dec re_text = Some (Finite x) \<and> py_float dec im_text = Some (Finite y) \<and>
         parse_complex dec s =
           Inr (PyComplex (Finite x) (Finite (if sg = chr_minus then - y else y))))) \<and>
   (py_float dec (py_strip s) = Some r \<longrightarrow> parse_complex dec s = Inr (PyComplex r (Finite 0))) \<and>
   ((\<forall>re_text sg im_text rest. \<not> affine_split dec (py_strip s) re_text sg im_text rest) \<and>
      py_float dec (py_strip s) = None \<longrightarrow> parse_complex dec s = Inl ValueError)"
proof (intro conjI impI)
  assume a: "affine_split dec (py_strip s) re_text sg im_text rest"
  then have m: "re_match dec (py_strip s) = Some (re_text, sg, im_text, rest)"
    by (rule re_match_complete [OF ok])
  from a have re: "signed_decimal_text dec re_text" and im: "decimal_text dec im_text"
    unfolding affine_split_def by blast+
  from im have "signed_decimal_text dec im_text" unfolding signed_decimal_text_def by blast
  from py_float_signed_decimal [OF ok re] py_float_signed_decimal [OF ok this]
  obtain x y where x: "py_float dec re_text = Some (Finite x)"
    and y: "py_float dec im_text = Some (Finite y)" by blast
  have "parse_complex dec s =
      Inr (PyComplex (Finite x) (Finite (if sg = chr_minus then - y else y)))"
    by (simp add: parse_complex_def m x y int_times_float_def)
  with x y show "\<exists>x y. py_float dec re_text = Some (Finite x) \<and>
      py_float dec im_text = Some (Finite y) \<and>
      parse_complex dec s =
        Inr (PyComplex (Finite x) (Finite (if sg = chr_minus then - y else y)))"
    by blast
next
  assume f: "py_float dec (py_strip s) = Some r"
  have "re_match dec (py_strip s) = None"
  proof (cases "re_match dec (py_strip s)")
    case None
    then show ?thesis .
  next
    case (Some q)
    obtain a b c d where "q = (a, b, c, d)" by (cases q)
    with Some have "affine_split dec (py_strip s) a b c d" by (simp add: re_match_sound)
    from affine_not_float [OF ok this] f show ?thesis by simp
  qed
  with f show "parse_complex dec s = Inr (PyComplex r (Finite 0))"
    by (simp add: parse_complex_def)
next
  assume n: "(\<forall>re_text sg im_text rest. \<not> affine_split dec (py_strip s) re_text sg im_text rest) \<and>
      py_float dec (py_strip s) = None"
  have "re_match dec (py_strip s) = None"
  proof (cases "re_match dec (py_strip s)")
    case None
    then show ?thesis .
  next
    case (Some q)
    obtain a b c d where "q = (a, b, c, d)" by (cases q)
    with Some have "affine_split dec (py_strip s) a b c d" by (simp add: re_match_sound)
    with n show ?thesis by blast
  qed
  with n show "parse_complex dec s = Inl ValueError"
    by (simp add: parse_complex_def)
qed

theorem parse_complex_prefix_or_real_witness:
  "digits_ok unicode_decimal \<and>
   parse_complex unicode_decimal (code_points '' -1.5 - 2.25i'') =
     Inr (PyComplex (Finite (- (3 / 2))) (Finite (- (9 / 4)))) \<and>
   parse_complex unicode_decimal [1633, 1634, 32, 43, 32, 1635, 8230] =
     Inr (PyComplex (Finite 12) (Finite 3)) \<and>
   parse_complex unicode_decimal (code_points ''.5'') =
     Inr (PyComplex (Finite (1 / 2)) (Finite 0)) \<and>
   parse_complex unicode_decimal (code_points ''abc'') = Inl ValueError"
proof -
  note inst = parse_complex_prefix_or_real [OF unicode_decimal_ok]
  let ?a = "[32, 45, 49, 46, 53, 32, 45, 32, 50, 46, 50, 53, 105] :: nat list"
  let ?a' = "[45, 49, 46, 53, 32, 45, 32, 50, 46, 50, 53, 105] :: nat list"
  have cpa: "code_points '' -1.5 - 2.25i'' = ?a" by (simp add: code_points_def)
  have strip1: "py_strip ?a = ?a'"
    by (simp add: py_strip_def strip_with_def is_space_def spaces_def)
  have "re_match unicode_decimal ?a' = Some ([45, 49, 46, 53], chr_minus, [50, 46, 50, 53], [])"
    by (simp add: match_eval)
  then have "affine_split unicode_decimal (py_strip ?a) [45, 49, 46, 53] chr_minus
      [50, 46, 50, 53] []"
    unfolding strip1 by (rule re_match_sound)
  with inst [of ?a "[45, 49, 46, 53]" chr_minus "[50, 46, 50, 53]" "[]" "Finite 0"]
  have "\<exists>x y. py_float unicode_decimal [45, 49, 46, 53] = Some (Finite x) \<and>
      py_float unicode_decimal [50, 46, 50, 53] = Some (Finite y) \<and>
      parse_complex unicode_decimal ?a = Inr (PyComplex (Finite x) (Finite (- y)))"
    by simp
  then obtain x y where "py_float unicode_decimal [45, 49, 46, 53] = Some (Finite x)"
    "py_float unicode_decimal [50, 46, 50, 53] = Some (Finite y)"
    "parse_complex unicode_decimal ?a = Inr (PyComplex (Finite x) (Finite (- y)))"
    by blast
  moreover have "py_float unicode_decimal [45, 49, 46, 53] = Some (Finite (- (3 / 2)))"
    "py_float unicode_decimal [50, 46, 50, 53] = Some (Finite (9 / 4))"
    by (simp_all add: float_eval)
  ultimately have one:
    "parse_complex unicode_decimal ?a = Inr (PyComplex (Finite (- (3 / 2))) (Finite (- (9 / 4))))"
    by simp
  let ?b = "[1633, 1634, 32, 43, 32, 1635, 8230] :: nat list"
  have strip2: "py_strip ?b = ?b"
    by (simp add: py_strip_def strip_with_def is_space_def spaces_def)
  have "re_match unicode_decimal ?b = Some ([1633, 1634], chr_plus, [1635], [])"
    by (simp add: match_eval)
  then have "affine_split unicode_decimal (py_strip ?b) [1633, 1634] chr_plus [1635] []"
    unfolding strip2 by (rule re_match_sound)
  with inst [of ?b "[1633, 1634]" chr_plus "[1635]" "[]" "Finite 0"]
  have "\<exists>x y. py_float unicode_decimal [1633, 1634] = Some (Finite x) \<and>
      py_float unicode_decimal [1635] = Some (Finite y) \<and>
      parse_complex unicode_decimal ?b = Inr (PyComplex (Finite x) (Finite y))"
    by simp
  then obtain x' y' where "py_float unicode_decimal [1633, 1634] = Some (Finite x')"
    "py_float unicode_decimal [1635] = Some (Finite y')"
    "parse_complex unicode_decimal ?b = Inr (PyComplex (Finite x') (Finite y'))"
    by blast
  moreover have "py_float unicode_decimal [1633, 1634] = Some (Finite 12)"
    "py_float unicode_decimal [1635] = Some (Finite 3)"
    by (simp_all add: float_eval)
  ultimately have two: "parse_complex unicode_decimal ?b = Inr (PyComplex (Finite 12) (Finite 3))"
    by simp
  have cpc: "code_points ''.5'' = [46, 53]" by (simp add: code_points_def)
  have "py_float unicode_decimal (py_strip [46, 53]) = Some (Finite (1 / 2))"
    by (simp add: py_strip_def float_eval)
  with inst [of "[46, 53]" "[]" chr_plus "[]" "[]" "Finite (1 / 2)"]
  have three: "parse_complex unicode_decimal [46, 53] = Inr (PyComplex (Finite (1 / 2)) (Finite 0))"
    by blast
  have cpd: "code_points ''abc'' = [97, 98, 99]" by (simp add: code_points_def)
  have strip4: "py_strip [97, 98, 99] = [97, 98, 99]"
    by (simp add: py_strip_def strip_with_def is_space_def spaces_def)
  have none: "re_match unicode_decimal [97, 98, 99] = None"
    by (simp add: match_eval)
  have "\<forall>re_text sg im_text rest.
      \<not> affine_split unicode_decimal (py_strip [97, 98, 99]) re_text sg im_text rest"
    unfolding strip4 using re_match_complete [OF unicode_decimal_ok] none by fastforce
  moreover have "py_float unicode_decimal (py_strip [97, 98, 99]) = None"
    unfolding strip4 by (simp add: float_eval)
  ultimately have four: "parse_complex unicode_decimal [97, 98, 99] = Inl ValueError"
    using inst [of "[97, 98, 99]" "[]" chr_plus "[]" "[]" "Finite 0"] by blast
  from unicode_decimal_ok one two three four show ?thesis
    by (simp add: cpa cpc cpd)
qed

end
